theory Spec2Isabelle
  imports Complex_Main
begin

section \<open>Dynamic values\<close>

text \<open>
  The input of the validator is an arbitrary JavaScript value (\<^verbatim>\<open>ObjectAny = any\<close>).
  The model covers the values a decoded document is made of, plus \<^verbatim>\<open>undefined\<close>:
  an object is the list of its own enumerable properties in the order \<^verbatim>\<open>Object.keys\<close>
  enumerates them, an array the list of its slots.
  \<^verbatim>\<open>NaN\<close> is kept apart from the other numbers because it is the one number that
  is not \<^verbatim>\<open>===\<close> to itself. Reading a property also finds what a value inherits
  through its prototype chain; what is found there is a built-in function, kept as
  \<open>VFunction\<close> with its name. The model never looks inside a function: it has no own
  property here.
\<close>

datatype number = NaN | Num real

datatype dyn =
    VUndefined
  | VNull
  | VBool bool
  | VNumber number
  | VString string
  | VArray "dyn list"
  | VObject "(string \<times> dyn) list"
  | VFunction string

text \<open>The \<^verbatim>\<open>typeof\<close> operator: \<^verbatim>\<open>null\<close> and arrays are \<^verbatim>\<open>"object"\<close>.\<close>

fun typeof :: "dyn \<Rightarrow> string" where
  "typeof VUndefined = ''undefined''"
| "typeof VNull = ''object''"
| "typeof (VBool b) = ''boolean''"
| "typeof (VNumber n) = ''number''"
| "typeof (VString s) = ''string''"
| "typeof (VArray xs) = ''object''"
| "typeof (VObject kvs) = ''object''"
| "typeof (VFunction n) = ''function''"

text \<open>Decimal rendering of an index, as the template literal \<^verbatim>\<open>`${index}`\<close> gives it.\<close>

definition digit :: "nat \<Rightarrow> char" where
  "digit d = ''0123456789'' ! d"

fun string_of_nat :: "nat \<Rightarrow> string" where
  "string_of_nat n =
     (if n < 10 then [digit n] else string_of_nat (n div 10) @ [digit (n mod 10)])"

declare string_of_nat.simps [simp del]

text \<open>The index a property name denotes in a sequence of length \<open>n\<close>, if any.\<close>

definition index_of_key :: "string \<Rightarrow> nat \<Rightarrow> nat option" where
  "index_of_key k n = find (\<lambda>i. string_of_nat i = k) [0..<n]"

text \<open>
  The prototype chain, as an unmodified ECMAScript 2023 runtime (with its Annex B) has
  it: the string-named members of \<^verbatim>\<open>Object.prototype\<close>, \<^verbatim>\<open>Array.prototype\<close>,
  \<^verbatim>\<open>String.prototype\<close>, \<^verbatim>\<open>Number.prototype\<close>, \<^verbatim>\<open>Boolean.prototype\<close> and
  \<^verbatim>\<open>Function.prototype\<close>. \<^verbatim>\<open>length\<close> is an own property of arrays and strings and is
  read before the chain.
\<close>

definition objectPrototype :: "string \<times> string list" where
  "objectPrototype = (''Object'',
     [''constructor'', ''__defineGetter__'', ''__defineSetter__'', ''hasOwnProperty'',
      ''__lookupGetter__'', ''__lookupSetter__'', ''isPrototypeOf'', ''propertyIsEnumerable'',
      ''toString'', ''valueOf'', ''toLocaleString''])"

definition arrayPrototype :: "string \<times> string list" where
  "arrayPrototype = (''Array'',
     [''constructor'', ''at'', ''concat'', ''copyWithin'', ''entries'', ''every'', ''fill'',
      ''filter'', ''find'', ''findIndex'', ''findLast'', ''findLastIndex'', ''flat'',
      ''flatMap'', ''forEach'', ''includes'', ''indexOf'', ''join'', ''keys'', ''lastIndexOf'',
      ''map'', ''pop'', ''push'', ''reduce'', ''reduceRight'', ''reverse'', ''shift'',
      ''slice'', ''some'', ''sort'', ''splice'', ''toLocaleString'', ''toReversed'',
      ''toSorted'', ''toSpliced'', ''toString'', ''unshift'', ''values'', ''with''])"

definition stringPrototype :: "string \<times> string list" where
  "stringPrototype = (''String'',
     [''constructor'', ''anchor'', ''at'', ''big'', ''blink'', ''bold'', ''charAt'',
      ''charCodeAt'', ''codePointAt'', ''concat'', ''endsWith'', ''fixed'', ''fontcolor'',
      ''fontsize'', ''includes'', ''indexOf'', ''italics'', ''lastIndexOf'', ''link'',
      ''localeCompare'', ''match'', ''matchAll'', ''normalize'', ''padEnd'', ''padStart'',
      ''repeat'', ''replace'', ''replaceAll'', ''search'', ''slice'', ''small'', ''split'',
      ''startsWith'', ''strike'', ''sub'', ''substr'', ''substring'', ''sup'',
      ''toLocaleLowerCase'', ''toLocaleUpperCase'', ''toLowerCase'', ''toString'',
      ''toUpperCase'', ''trim'', ''trimEnd'', ''trimLeft'', ''trimRight'', ''trimStart'',
      ''valueOf''])"

definition numberPrototype :: "string \<times> string list" where
  "numberPrototype = (''Number'',
     [''constructor'', ''toExponential'', ''toFixed'', ''toLocaleString'', ''toPrecision'',
      ''toString'', ''valueOf''])"

definition booleanPrototype :: "string \<times> string list" where
  "booleanPrototype = (''Boolean'', [''constructor'', ''toString'', ''valueOf''])"

definition functionPrototype :: "string \<times> string list" where
  "functionPrototype = (''Function'',
     [''constructor'', ''apply'', ''bind'', ''call'', ''toString''])"

text \<open>
  The member \<open>k\<close> along a chain of prototypes: the first prototype that has it decides.
  \<^verbatim>\<open>constructor\<close> is the constructor function itself.
\<close>

fun memberOf :: "(string \<times> string list) list \<Rightarrow> string \<Rightarrow> dyn option" where
  "memberOf [] k = None"
| "memberOf ((owner, names) # chain) k =
     (if k \<in> set names
      then Some (if k = ''constructor'' then VFunction owner
                 else VFunction (owner @ ''.prototype.'' @ k))
      else memberOf chain k)"

text \<open>
  What a value inherits under the name \<open>k\<close>. The accessor \<^verbatim>\<open>__proto__\<close> yields the
  prototype object, which the model renders by the empty object (the empty array for
  \<^verbatim>\<open>Array.prototype\<close>, which is one).
\<close>

fun inherited :: "dyn \<Rightarrow> string \<Rightarrow> dyn option" where
  "inherited VUndefined k = None"
| "inherited VNull k = None"
| "inherited (VObject kvs) k =
     (if k = ''__proto__'' then Some (VObject []) else memberOf [objectPrototype] k)"
| "inherited (VArray xs) k =
     (if k = ''__proto__'' then Some (VArray [])
      else memberOf [arrayPrototype, objectPrototype] k)"
| "inherited (VString s) k =
     (if k = ''__proto__'' then Some (VObject [])
      else memberOf [stringPrototype, objectPrototype] k)"
| "inherited (VNumber n) k =
     (if k = ''__proto__'' then Some (VObject [])
      else memberOf [numberPrototype, objectPrototype] k)"
| "inherited (VBool b) k =
     (if k = ''__proto__'' then Some (VObject [])
      else memberOf [booleanPrototype, objectPrototype] k)"
| "inherited (VFunction n) k =
     (if k = ''__proto__'' then Some (VFunction ''Function.prototype'')
      else memberOf [functionPrototype, objectPrototype] k)"

definition fromChain :: "dyn \<Rightarrow> string \<Rightarrow> dyn" where
  "fromChain v k = (case inherited v k of Some x \<Rightarrow> x | None \<Rightarrow> VUndefined)"

text \<open>
  \<^verbatim>\<open>obj?.[key]\<close>: \<^verbatim>\<open>undefined\<close> on \<^verbatim>\<open>null\<close> and \<^verbatim>\<open>undefined\<close>; an own property of an
  object; a slot or the length of an array or of a string; otherwise what the value
  inherits under that name, and \<^verbatim>\<open>undefined\<close> when it inherits nothing.
\<close>

fun getProp :: "dyn \<Rightarrow> string \<Rightarrow> dyn" where
  "getProp VUndefined k = VUndefined"
| "getProp VNull k = VUndefined"
| "getProp (VObject kvs) k =
     (case map_of kvs k of Some v \<Rightarrow> v | None \<Rightarrow> fromChain (VObject kvs) k)"
| "getProp (VArray xs) k =
     (case index_of_key k (length xs) of
        Some i \<Rightarrow> xs ! i
      | None \<Rightarrow>
          if k = ''length'' then VNumber (Num (real (length xs)))
          else fromChain (VArray xs) k)"
| "getProp (VString s) k =
     (case index_of_key k (length s) of
        Some i \<Rightarrow> VString [s ! i]
      | None \<Rightarrow>
          if k = ''length'' then VNumber (Num (real (length s)))
          else fromChain (VString s) k)"
| "getProp v k = fromChain v k"

section \<open>Errors\<close>

datatype Type = String | Number | Bool | Object | Array | Custom

text \<open>
  The classes of \<^verbatim>\<open>error.ts\<close>, and the built-in \<^verbatim>\<open>Error\<close> and \<^verbatim>\<open>TypeError\<close> with
  their messages. The messages of the four classes of \<^verbatim>\<open>error.ts\<close> are functions of the
  fields kept here.
\<close>

datatype exn =
    FieldTypeMismatchError (e_key: string) (e_type: Type) (e_value: dyn)
  | FieldNonNullableError (e_key: string)
  | UnexpectedFieldError (e_key: string)
  | ValidationError (e_error: exn)
  | Error string
  | TypeError string

fun isFieldValidationError :: "exn \<Rightarrow> bool" where
  "isFieldValidationError (FieldTypeMismatchError k t v) = True"
| "isFieldValidationError (FieldNonNullableError k) = True"
| "isFieldValidationError (UnexpectedFieldError k) = True"
| "isFieldValidationError e = False"

text \<open>
  \<^verbatim>\<open>Object.keys\<close>: a \<^verbatim>\<open>TypeError\<close> on \<^verbatim>\<open>null\<close> and \<^verbatim>\<open>undefined\<close>, the index names of an
  array or a string, nothing for a number, a boolean or a function.
\<close>

fun object_keys :: "dyn \<Rightarrow> exn + string list" where
  "object_keys VUndefined = Inl (TypeError ''Cannot convert undefined or null to object'')"
| "object_keys VNull = Inl (TypeError ''Cannot convert undefined or null to object'')"
| "object_keys (VObject kvs) = Inr (map fst kvs)"
| "object_keys (VArray xs) = Inr (map string_of_nat [0..<length xs])"
| "object_keys (VString s) = Inr (map string_of_nat [0..<length s])"
| "object_keys v = Inr []"

section \<open>Schemas\<close>

text \<open>
  A resolver is caller code: it throws, or returns a value. The engine compares the
  result with \<^verbatim>\<open>!==\<close>, which is identity on objects and arrays, so the model tells
  \<open>ReturnsSame\<close> (the resolver hands back the very value it received) from
  \<open>Returns r\<close> (it hands back another value \<open>r\<close>; when \<open>r\<close> is an object or an array it
  is another reference, whatever its contents). Resolvers are pure here.
\<close>

datatype outcome = Throws exn | ReturnsSame | Returns dyn

type_synonym Resolver = "dyn \<Rightarrow> string \<Rightarrow> outcome"

text \<open>
  One field specification, as the object the constructors build:
  \<^verbatim>\<open>{ fieldOptions: { optional }, type, schema, resolver }\<close> or, for an array,
  \<^verbatim>\<open>{ fieldOptions, type: Type.Array, field }\<close>. A property that is \<^verbatim>\<open>undefined\<close> (or,
  for the resolver, not a function) is \<open>None\<close>. A schema lists its fields in the order
  \<^verbatim>\<open>Object.keys\<close> enumerates them; the keys of a JavaScript object are distinct, so
  walking the entries is walking \<^verbatim>\<open>schema[key]\<close> for each key.
\<close>

datatype Field =
  MkField (f_optional: bool) (f_type: Type)
    (f_schema: "(string \<times> Field) list option")
    (f_resolver: "Resolver option")
    (f_field: "Field option")

type_synonym Schema = "(string \<times> Field) list"

text \<open>
  The order in which \<^verbatim>\<open>Object.keys\<close> enumerates an object written as a literal with the
  properties \<open>props\<close> (distinct names, in the order written): first the names that are
  array indices (the canonical decimal form of an integer below \<open>2\<^sup>3\<^sup>2 - 1\<close>), in
  ascending numeric order, then the other names in the order written. A \<open>Schema\<close> and the
  properties of a \<open>VObject\<close> are lists in that order.
\<close>

fun parseDigits :: "string \<Rightarrow> nat \<Rightarrow> nat option" where
  "parseDigits [] acc = Some acc"
| "parseDigits (c # cs) acc =
     (case find (\<lambda>d. digit d = c) [0..<10] of
        Some d \<Rightarrow> parseDigits cs (10 * acc + d)
      | None \<Rightarrow> None)"

definition arrayIndex :: "string \<Rightarrow> nat option" where
  "arrayIndex k =
     (if k = [] then None
      else case parseDigits k 0 of
             Some n \<Rightarrow> if string_of_nat n = k \<and> int n < 4294967295 then Some n else None
           | None \<Rightarrow> None)"

definition literal :: "(string \<times> 'a) list \<Rightarrow> (string \<times> 'a) list" where
  "literal props =
     sort_key (\<lambda>(k, x). case arrayIndex k of Some n \<Rightarrow> n | None \<Rightarrow> 0)
       (filter (\<lambda>(k, x). arrayIndex k \<noteq> None) props) @
     filter (\<lambda>(k, x). arrayIndex k = None) props"

record FieldOptions =
  optional :: "bool option"

definition finalOptions :: "FieldOptions \<Rightarrow> bool" where
  "finalOptions fieldOptions = (case optional fieldOptions of Some b \<Rightarrow> b | None \<Rightarrow> False)"

definition customField :: "Resolver \<Rightarrow> FieldOptions \<Rightarrow> Field" where
  "customField resolver fieldOptions =
     MkField (finalOptions fieldOptions) Custom None (Some resolver) None"

definition field :: "Type \<Rightarrow> FieldOptions \<Rightarrow> Field" where
  "field ty fieldOptions = MkField (finalOptions fieldOptions) ty None None None"

definition objectField :: "Schema \<Rightarrow> FieldOptions \<Rightarrow> Field" where
  "objectField schema fieldOptions =
     MkField (finalOptions fieldOptions) Object (Some schema) None None"

definition arrayField :: "Field \<Rightarrow> FieldOptions \<Rightarrow> Field" where
  "arrayField fld fieldOptions =
     MkField (finalOptions fieldOptions) Array None None (Some fld)"

abbreviation required :: FieldOptions where
  "required \<equiv> \<lparr>optional = None\<rparr>"

abbreviation opt :: FieldOptions where
  "opt \<equiv> \<lparr>optional = Some True\<rparr>"

record ValidateOptions =
  o_strict :: "bool option"
  o_rootKey :: "string option"

section \<open>The checkers\<close>

definition isString :: "dyn \<Rightarrow> string \<Rightarrow> exn + dyn" where
  "isString v k =
     (if typeof v \<noteq> ''string'' then Inl (FieldTypeMismatchError k String v) else Inr v)"

definition isNumber :: "dyn \<Rightarrow> string \<Rightarrow> exn + dyn" where
  "isNumber v k =
     (if typeof v \<noteq> ''number'' then Inl (FieldTypeMismatchError k Number v) else Inr v)"

definition isBool :: "dyn \<Rightarrow> string \<Rightarrow> exn + dyn" where
  "isBool v k =
     (if typeof v \<noteq> ''boolean'' then Inl (FieldTypeMismatchError k Bool v) else Inr v)"

text \<open>
  The loop of \<^verbatim>\<open>_isArray\<close>: slot \<open>i\<close> receives \<^verbatim>\<open>next(obj[i], i)\<close>; the first
  exception ends it.
\<close>

fun forLoop :: "(dyn \<Rightarrow> nat \<Rightarrow> exn + dyn) \<Rightarrow> dyn list \<Rightarrow> nat \<Rightarrow> exn + dyn list" where
  "forLoop next [] i = Inr []"
| "forLoop next (v # vs) i =
     (case next v i of
        Inl e \<Rightarrow> Inl e
      | Inr v' \<Rightarrow>
          (case forLoop next vs (Suc i) of
             Inl e \<Rightarrow> Inl e
           | Inr vs' \<Rightarrow> Inr (v' # vs')))"

definition isArray :: "dyn \<Rightarrow> string \<Rightarrow> (dyn \<Rightarrow> nat \<Rightarrow> exn + dyn) \<Rightarrow> exn + dyn" where
  "isArray obj k next =
     (case obj of
        VArray xs \<Rightarrow>
          (case forLoop next xs 0 of Inl e \<Rightarrow> Inl e | Inr ys \<Rightarrow> Inr (VArray ys))
      | _ \<Rightarrow> Inl (FieldTypeMismatchError k Array obj))"

definition isObject :: "dyn \<Rightarrow> string \<Rightarrow> (dyn \<Rightarrow> exn + dyn) \<Rightarrow> exn + dyn" where
  "isObject obj k next =
     (if typeof obj \<noteq> ''object'' then Inl (FieldTypeMismatchError k Object obj)
      else next obj)"

text \<open>
  The qualified key of a field: \<^verbatim>\<open>rootKey ? `${rootKey}.${key}` : key\<close>. An empty
  \<^verbatim>\<open>rootKey\<close> is falsy, like an absent one.
\<close>

definition qualifiedKey :: "string option \<Rightarrow> string \<Rightarrow> string" where
  "qualifiedKey rootKey k =
     (case rootKey of
        None \<Rightarrow> k
      | Some r \<Rightarrow> if r = [] then k else r @ ''.'' @ k)"

text \<open>The key of an array element: \<^verbatim>\<open>`${_key}[${index}]`\<close>.\<close>

definition indexedKey :: "string \<Rightarrow> nat \<Rightarrow> string" where
  "indexedKey k i = k @ ''['' @ string_of_nat i @ '']''"

text \<open>
  \<^verbatim>\<open>_isArray\<close> overwrites the slots of the array it is given, and the array is reached
  through the object under validation. The model has no references: the walk carries
  the object, and \<open>inplace obj k v\<close> is the object once the value under its property
  \<open>k\<close> has become \<open>v\<close>. No property is ever created.
\<close>

fun update_first :: "(string \<times> dyn) list \<Rightarrow> string \<Rightarrow> dyn \<Rightarrow> (string \<times> dyn) list" where
  "update_first [] k v = []"
| "update_first ((k', x) # kvs) k v =
     (if k' = k then (k', v) # kvs else (k', x) # update_first kvs k v)"

fun inplace :: "dyn \<Rightarrow> string \<Rightarrow> dyn \<Rightarrow> dyn" where
  "inplace (VObject kvs) k v = VObject (update_first kvs k v)"
| "inplace (VArray xs) k v =
     (case index_of_key k (length xs) of
        Some i \<Rightarrow> VArray (xs[i := v])
      | None \<Rightarrow> VArray xs)"
| "inplace obj k v = obj"

text \<open>\<^verbatim>\<open>result !== obj?.[key]\<close> for a value the resolver returned.\<close>

fun strictNotEqual :: "dyn \<Rightarrow> dyn \<Rightarrow> bool" where
  "strictNotEqual (VNumber NaN) v = True"
| "strictNotEqual (VArray xs) v = True"
| "strictNotEqual (VObject kvs) v = True"
| "strictNotEqual r v = (r \<noteq> v)"

fun differs :: "outcome \<Rightarrow> dyn \<Rightarrow> bool" where
  "differs ReturnsSame v = (v = VNumber NaN)"
| "differs (Returns r) v = strictNotEqual r v"
| "differs (Throws e) v = False"

text \<open>
  \<^verbatim>\<open>_fieldChecker\<close>, \<^verbatim>\<open>_objectFieldChecker\<close> and the loop of the latter over
  \<^verbatim>\<open>Object.keys(schema)\<close>. The loop carries the object; the other arguments are those
  of the source. In the loop \<open>k\<close> is the source's \<^verbatim>\<open>key\<close> and \<open>key\<close> its \<^verbatim>\<open>_key\<close>.
  The \<^verbatim>\<open>default\<close> branch of the loop's \<^verbatim>\<open>switch\<close> has no counterpart: \<open>Type\<close> has the
  six members of the enum and each has its case.
\<close>

function fieldChecker :: "dyn \<Rightarrow> string \<Rightarrow> Type \<Rightarrow> bool \<Rightarrow> Schema option \<Rightarrow> exn + dyn"
  and objectFieldChecker :: "Schema \<Rightarrow> dyn \<Rightarrow> bool \<Rightarrow> string option \<Rightarrow> exn + dyn"
  and fieldsLoop :: "Schema \<Rightarrow> dyn \<Rightarrow> bool \<Rightarrow> string option \<Rightarrow> exn + dyn"
where
  "fieldChecker v k ty strict sch =
     (case ty of
        String \<Rightarrow> isString v k
      | Number \<Rightarrow> isNumber v k
      | Bool \<Rightarrow> isBool v k
      | Object \<Rightarrow>
          (case sch of
             Some s \<Rightarrow> isObject v k (\<lambda>ob. objectFieldChecker s ob strict (Some k))
           | None \<Rightarrow>
               Inl (Error (''Object type for key '' @ k @ '' must have a schema defined'')))
      | _ \<Rightarrow> Inl (Error (''Unknown type for key '' @ k)))"
| "objectFieldChecker schema obj strict rootKey =
     (if strict then
        (case object_keys obj of
           Inl e \<Rightarrow> Inl e
         | Inr actualKeys \<Rightarrow>
             (let expectedKeys = map fst schema;
                  unexpectedKeys = filter (\<lambda>k. k \<notin> set expectedKeys) actualKeys
              in if length unexpectedKeys > 0
                 then Inl (UnexpectedFieldError (hd unexpectedKeys))
                 else fieldsLoop schema obj strict rootKey))
      else fieldsLoop schema obj strict rootKey)"
| "fieldsLoop [] obj strict rootKey = Inr obj"
| "fieldsLoop ((k, f) # rest) obj strict rootKey =
     (if f_optional f \<and> getProp obj k = VUndefined
      then fieldsLoop rest obj strict rootKey
      else
        (let key = qualifiedKey rootKey k in
         case f_type f of
           Array \<Rightarrow>
             (case isArray (getProp obj k) key
                     (\<lambda>el index.
                        case f_field f of
                          None \<Rightarrow>
                            Inl (TypeError ''Cannot read properties of undefined (reading 'type')'')
                        | Some fld \<Rightarrow>
                            fieldChecker el (indexedKey key index) (f_type fld) strict
                              (f_schema fld)) of
                Inl e \<Rightarrow> Inl e
              | Inr v' \<Rightarrow> fieldsLoop rest (inplace obj k v') strict rootKey)
         | Custom \<Rightarrow>
             (case f_resolver f of
                None \<Rightarrow> Inl (Error (''Resolver for key '' @ k @ '' must be a function''))
              | Some resolver \<Rightarrow>
                  (case resolver (getProp obj k) key of
                     Throws e \<Rightarrow> Inl e
                   | result \<Rightarrow>
                       if differs result (getProp obj k)
                       then Inl (Error (''Custom resolver for key '' @ k @
                              '' did not return the origin value, which is not allowed''))
                       else fieldsLoop rest obj strict rootKey))
         | _ \<Rightarrow>
             (case fieldChecker (getProp obj k) key (f_type f) strict (f_schema f) of
                Inl e \<Rightarrow> Inl e
              | Inr v' \<Rightarrow> fieldsLoop rest (inplace obj k v') strict rootKey)))"
  by pat_completeness auto

termination
  apply (relation "measure (\<lambda>x. case x of
        Inl (v, k, ty, strict, sch) \<Rightarrow>
          2 * size_option (size_list (size_prod (\<lambda>_. 0) size)) sch
      | Inr (Inl (s, obj, strict, rootKey)) \<Rightarrow>
          2 * size_list (size_prod (\<lambda>_. 0) size) s + 1
      | Inr (Inr (s, obj, strict, rootKey)) \<Rightarrow>
          2 * size_list (size_prod (\<lambda>_. 0) size) s)")
         apply simp_all
  subgoal for k f by (cases f) simp
  subgoal for k f by (cases f) simp
  subgoal for k f by (cases f) simp
  subgoal for k f by (cases f) simp
  subgoal for k f rest obj rootKey x fld by (cases f; cases fld) simp
  done

definition checkObject :: "dyn \<Rightarrow> (dyn \<Rightarrow> exn + dyn) \<Rightarrow> exn + dyn" where
  "checkObject obj checker = checker obj"

text \<open>
  \<^verbatim>\<open>Validator.validate\<close>: \<^verbatim>\<open>{ strict: false, ...options }\<close>, then the walk inside
  \<^verbatim>\<open>try\<close>; a caught error that \<^verbatim>\<open>isFieldValidationError\<close> accepts is rethrown inside a
  \<^verbatim>\<open>ValidationError\<close>, any other is rethrown as it is.
\<close>

definition finalStrict :: "ValidateOptions \<Rightarrow> bool" where
  "finalStrict options = (case o_strict options of Some b \<Rightarrow> b | None \<Rightarrow> False)"

definition validate :: "Schema \<Rightarrow> dyn \<Rightarrow> ValidateOptions \<Rightarrow> exn + dyn" where
  "validate schema obj options =
     (case checkObject obj
             (\<lambda>ob. objectFieldChecker schema ob (finalStrict options) (o_rootKey options)) of
        Inl error \<Rightarrow>
          if isFieldValidationError error then Inl (ValidationError error) else Inl error
      | Inr result \<Rightarrow> Inr result)"

abbreviation defaults :: ValidateOptions where
  "defaults \<equiv> \<lparr>o_strict = None, o_rootKey = None\<rparr>"

section \<open>Notions used to state the properties\<close>

text \<open>
  The strict check of one object level lets the walk start: strict mode is off, or
  \<^verbatim>\<open>Object.keys(obj)\<close> returns and none of the keys is missing from the schema.
\<close>

definition strictPasses :: "Schema \<Rightarrow> dyn \<Rightarrow> bool \<Rightarrow> bool" where
  "strictPasses schema obj strict =
     (\<not> strict \<or>
      (case object_keys obj of
         Inl e \<Rightarrow> False
       | Inr actualKeys \<Rightarrow> filter (\<lambda>k. k \<notin> set (map fst schema)) actualKeys = []))"

text \<open>
  One level of nesting: the field \<open>k\<close> is a required object field, or a required array
  of objects whose only element is descended into. \<open>nestSchema\<close>, \<open>nestValue\<close> and
  \<open>nestKey\<close> put a schema, a value and the root key under the levels \<open>ks\<close>.
\<close>

datatype level = InField string | InElement string

fun nestSchema :: "level list \<Rightarrow> Schema \<Rightarrow> Schema" where
  "nestSchema [] s = s"
| "nestSchema (InField k # ks) s = [(k, objectField (nestSchema ks s) required)]"
| "nestSchema (InElement k # ks) s =
     [(k, arrayField (objectField (nestSchema ks s) required) required)]"

fun nestValue :: "level list \<Rightarrow> dyn \<Rightarrow> dyn" where
  "nestValue [] v = v"
| "nestValue (InField k # ks) v = VObject [(k, nestValue ks v)]"
| "nestValue (InElement k # ks) v = VObject [(k, VArray [nestValue ks v])]"

fun nestKey :: "string option \<Rightarrow> level list \<Rightarrow> string option" where
  "nestKey rootKey [] = rootKey"
| "nestKey rootKey (InField k # ks) = nestKey (Some (qualifiedKey rootKey k)) ks"
| "nestKey rootKey (InElement k # ks) =
     nestKey (Some (indexedKey (qualifiedKey rootKey k) 0)) ks"

text \<open>The resolvers of a schema, at any depth.\<close>

inductive hasResolver :: "Schema \<Rightarrow> Resolver \<Rightarrow> bool" where
  here: "(k, f) \<in> set s \<Longrightarrow> f_resolver f = Some r \<Longrightarrow> hasResolver s r"
| nested: "(k, f) \<in> set s \<Longrightarrow> f_schema f = Some s' \<Longrightarrow> hasResolver s' r \<Longrightarrow> hasResolver s r"
| element: "(k, f) \<in> set s \<Longrightarrow> f_field f = Some fld \<Longrightarrow> f_schema fld = Some s' \<Longrightarrow>
     hasResolver s' r \<Longrightarrow> hasResolver s r"

text \<open>The body of the loop of \<^verbatim>\<open>_objectFieldChecker\<close> for one field of the schema.\<close>

definition fieldStep :: "string \<Rightarrow> Field \<Rightarrow> dyn \<Rightarrow> bool \<Rightarrow> string option \<Rightarrow> exn + dyn" where
  "fieldStep k f obj strict rootKey =
     (if f_optional f \<and> getProp obj k = VUndefined
      then Inr obj
      else
        (let key = qualifiedKey rootKey k in
         case f_type f of
           Array \<Rightarrow>
             (case isArray (getProp obj k) key
                     (\<lambda>el index.
                        case f_field f of
                          None \<Rightarrow>
                            Inl (TypeError ''Cannot read properties of undefined (reading 'type')'')
                        | Some fld \<Rightarrow>
                            fieldChecker el (indexedKey key index) (f_type fld) strict
                              (f_schema fld)) of
                Inl e \<Rightarrow> Inl e
              | Inr v' \<Rightarrow> Inr (inplace obj k v'))
         | Custom \<Rightarrow>
             (case f_resolver f of
                None \<Rightarrow> Inl (Error (''Resolver for key '' @ k @ '' must be a function''))
              | Some resolver \<Rightarrow>
                  (case resolver (getProp obj k) key of
                     Throws e \<Rightarrow> Inl e
                   | result \<Rightarrow>
                       if differs result (getProp obj k)
                       then Inl (Error (''Custom resolver for key '' @ k @
                              '' did not return the origin value, which is not allowed''))
                       else Inr obj))
         | _ \<Rightarrow>
             (case fieldChecker (getProp obj k) key (f_type f) strict (f_schema f) of
                Inl e \<Rightarrow> Inl e
              | Inr v' \<Rightarrow> Inr (inplace obj k v'))))"

text \<open>
  The walk of the schema \<open>S\<close> on the input \<open>O\<close> under the root key \<open>RK\<close> reaches an
  object level: it calls \<^verbatim>\<open>_objectFieldChecker\<close> on the schema \<open>s\<close>, the object \<open>obj\<close>
  and the root key \<open>rk\<close>, everything checked before that call having passed. The top
  level is reached; from a reached level whose strict check passes, the walk reaches
  the nested schema of an object field, or of an element of an array of objects, once
  the fields before it, and the elements before it, are valid.
\<close>

inductive reaches ::
  "bool \<Rightarrow> Schema \<Rightarrow> dyn \<Rightarrow> string option \<Rightarrow> Schema \<Rightarrow> dyn \<Rightarrow> string option \<Rightarrow> bool"
  for strict :: bool and S :: Schema and O' :: dyn and RK :: "string option"
where
  top: "reaches strict S O' RK S O' RK"
| into_field:
    "reaches strict S O' RK s obj rk \<Longrightarrow> strictPasses s obj strict \<Longrightarrow>
     s = before @ (name, f) # after \<Longrightarrow>
     fieldsLoop before obj strict rk = Inr obj \<Longrightarrow>
     \<not> (f_optional f \<and> getProp obj name = VUndefined) \<Longrightarrow>
     f_type f = Object \<Longrightarrow> f_schema f = Some s' \<Longrightarrow>
     typeof (getProp obj name) = ''object'' \<Longrightarrow>
     reaches strict S O' RK s' (getProp obj name) (Some (qualifiedKey rk name))"
| into_element:
    "reaches strict S O' RK s obj rk \<Longrightarrow> strictPasses s obj strict \<Longrightarrow>
     s = before @ (name, f) # after \<Longrightarrow>
     fieldsLoop before obj strict rk = Inr obj \<Longrightarrow>
     \<not> (f_optional f \<and> getProp obj name = VUndefined) \<Longrightarrow>
     f_type f = Array \<Longrightarrow> f_field f = Some fld \<Longrightarrow>
     getProp obj name = VArray xs \<Longrightarrow> i < length xs \<Longrightarrow>
     forLoop (\<lambda>el index.
                fieldChecker el (indexedKey (qualifiedKey rk name) index) (f_type fld) strict
                  (f_schema fld))
       (take i xs) 0 = Inr (take i xs) \<Longrightarrow>
     f_type fld = Object \<Longrightarrow> f_schema fld = Some s' \<Longrightarrow>
     typeof (xs ! i) = ''object'' \<Longrightarrow>
     reaches strict S O' RK s' (xs ! i) (Some (indexedKey (qualifiedKey rk name) i))"

text \<open>
  The exceptions the engine constructs itself, and those a resolver of the schema throws.
\<close>

fun engineMade :: "exn \<Rightarrow> bool" where
  "engineMade (FieldNonNullableError k) = False"
| "engineMade (ValidationError e) = False"
| "engineMade e = True"

definition resolverThrows :: "Schema \<Rightarrow> exn \<Rightarrow> bool" where
  "resolverThrows s e = (\<exists>r v k. hasResolver s r \<and> r v k = Throws e)"

text \<open>
  The place of a value in the input and its key path: \<open>atPath s obj rk p ty v\<close> says that
  \<open>p\<close> is the root key \<open>rk\<close> followed by the dotted chain of object field names, with
  \<open>name[index]\<close> for an array element, down to a field or an array element of declared
  kind \<open>ty\<close> whose value in \<open>obj\<close> is \<open>v\<close>.
\<close>

inductive atPath :: "Schema \<Rightarrow> dyn \<Rightarrow> string option \<Rightarrow> string \<Rightarrow> Type \<Rightarrow> dyn \<Rightarrow> bool" where
  field: "(name, f) \<in> set s \<Longrightarrow>
     atPath s obj rk (qualifiedKey rk name) (f_type f) (getProp obj name)"
| nested: "(name, f) \<in> set s \<Longrightarrow> f_type f = Object \<Longrightarrow> f_schema f = Some s' \<Longrightarrow>
     atPath s' (getProp obj name) (Some (qualifiedKey rk name)) p ty v \<Longrightarrow>
     atPath s obj rk p ty v"
| element: "(name, f) \<in> set s \<Longrightarrow> f_type f = Array \<Longrightarrow> f_field f = Some fld \<Longrightarrow>
     getProp obj name = VArray xs \<Longrightarrow> i < length xs \<Longrightarrow>
     atPath s obj rk (indexedKey (qualifiedKey rk name) i) (f_type fld) (xs ! i)"
| element_nested: "(name, f) \<in> set s \<Longrightarrow> f_type f = Array \<Longrightarrow> f_field f = Some fld \<Longrightarrow>
     getProp obj name = VArray xs \<Longrightarrow> i < length xs \<Longrightarrow>
     f_type fld = Object \<Longrightarrow> f_schema fld = Some s' \<Longrightarrow>
     atPath s' (xs ! i) (Some (indexedKey (qualifiedKey rk name) i)) p ty v \<Longrightarrow>
     atPath s obj rk p ty v"

section \<open>Conformance as the specification words it\<close>

text \<open>
  The specification's reading of "the value satisfies the schema", used to state the
  round trip: a primitive has exactly the declared type; an object field holds an
  Object that satisfies the nested schema; an array field holds an Array whose elements
  each satisfy the element specification under the key \<open>name[index]\<close>, the element
  being a primitive, an object field or a custom field; a custom field's resolver
  returns the value it was given; an optional field may be absent.
\<close>

function specField :: "Field \<Rightarrow> dyn \<Rightarrow> string \<Rightarrow> bool"
  and specFields :: "Schema \<Rightarrow> dyn \<Rightarrow> string option \<Rightarrow> bool"
where
  "specField f v k =
     (case f_type f of
        String \<Rightarrow> (case v of VString s \<Rightarrow> True | _ \<Rightarrow> False)
      | Number \<Rightarrow> (case v of VNumber n \<Rightarrow> True | _ \<Rightarrow> False)
      | Bool \<Rightarrow> (case v of VBool b \<Rightarrow> True | _ \<Rightarrow> False)
      | Object \<Rightarrow>
          (case f_schema f of
             None \<Rightarrow> False
           | Some s \<Rightarrow> (case v of VObject kvs \<Rightarrow> specFields s v (Some k) | _ \<Rightarrow> False))
      | Array \<Rightarrow>
          (case f_field f of
             None \<Rightarrow> False
           | Some fld \<Rightarrow>
               f_type fld \<noteq> Array \<and>
               (case v of
                  VArray xs \<Rightarrow>
                    list_all (\<lambda>(el, index). specField fld el (indexedKey k index))
                      (zip xs [0..<length xs])
                | _ \<Rightarrow> False))
      | Custom \<Rightarrow>
          (case f_resolver f of
             None \<Rightarrow> False
           | Some resolver \<Rightarrow>
               (case resolver v k of Throws e \<Rightarrow> False | result \<Rightarrow> \<not> differs result v)))"
| "specFields [] obj rootKey = True"
| "specFields ((k, f) # rest) obj rootKey =
     (((f_optional f \<and> getProp obj k = VUndefined) \<or>
        specField f (getProp obj k) (qualifiedKey rootKey k)) \<and>
      specFields rest obj rootKey)"
  by pat_completeness auto

termination
  apply (relation "measure (\<lambda>x. case x of
        Inl (f, v, k) \<Rightarrow> 2 * size f
      | Inr (s, obj, rootKey) \<Rightarrow> 2 * size_list (size_prod (\<lambda>_. 0) size) s + 1)")
      apply simp_all
  subgoal for f v k s by (cases f) simp
  subgoal for f v k fld by (cases f) simp
  done

definition satisfies :: "Schema \<Rightarrow> dyn \<Rightarrow> bool" where
  "satisfies schema v = (case v of VObject kvs \<Rightarrow> specFields schema v None | _ \<Rightarrow> False)"

text \<open>
  The schemas that put a custom field in an array, at any depth, and the fields free of
  them.
\<close>

inductive customElement :: "Schema \<Rightarrow> bool" where
  direct: "(k, f) \<in> set s \<Longrightarrow> f_type f = Array \<Longrightarrow> f_field f = Some fld \<Longrightarrow>
     f_type fld = Custom \<Longrightarrow> customElement s"
| nested: "(k, f) \<in> set s \<Longrightarrow> f_type f = Object \<Longrightarrow> f_schema f = Some s' \<Longrightarrow>
     customElement s' \<Longrightarrow> customElement s"
| element: "(k, f) \<in> set s \<Longrightarrow> f_type f = Array \<Longrightarrow> f_field f = Some fld \<Longrightarrow>
     f_type fld = Object \<Longrightarrow> f_schema fld = Some s' \<Longrightarrow> customElement s' \<Longrightarrow>
     customElement s"

definition fieldClean :: "Field \<Rightarrow> bool" where
  "fieldClean f =
     ((f_type f = Object \<longrightarrow> (\<forall>s'. f_schema f = Some s' \<longrightarrow> \<not> customElement s')) \<and>
      (f_type f = Array \<longrightarrow>
         (\<forall>fld. f_field f = Some fld \<longrightarrow>
            f_type fld \<noteq> Custom \<and>
            (f_type fld = Object \<longrightarrow> (\<forall>s'. f_schema fld = Some s' \<longrightarrow> \<not> customElement s')))))"

section \<open>Caller code used in the examples\<close>

text \<open>A resolver that accepts everything and returns what it was given.\<close>

definition acceptAll :: Resolver where
  "acceptAll v k = ReturnsSame"

text \<open>
  A resolver that reports its rejection with the library's own exported error class:
  \<^verbatim>\<open>(val, key) => { throw new FieldTypeMismatchError(key, Type.String, val) }\<close>.
\<close>

definition rejectClassified :: Resolver where
  "rejectClassified v k = Throws (FieldTypeMismatchError k String v)"

text \<open>A resolver that returns a value other than the one it was given.\<close>

definition replaceByNull :: Resolver where
  "replaceByNull v k = Returns VNull"

text \<open>A resolver that reports an absent value with the reserved error class.\<close>

definition rejectAbsent :: Resolver where
  "rejectAbsent v k = (if v = VUndefined then Throws (FieldNonNullableError k) else ReturnsSame)"

text \<open>A resolver that rejects everything with a plain \<^verbatim>\<open>Error\<close>.\<close>

definition rejectPlain :: Resolver where
  "rejectPlain v k = Throws (Error (''rejected under key: '' @ k))"

section \<open>Basic facts\<close>

declare fieldChecker.simps [simp del] objectFieldChecker.simps [simp del]
  fieldsLoop.simps(2) [simp del]

lemma forLoop_same:
  "(\<And>v i v'. next v i = Inr v' \<Longrightarrow> v' = v) \<Longrightarrow> forLoop next xs i = Inr ys \<Longrightarrow> ys = xs"
  by (induction xs arbitrary: i ys) (auto split: sum.splits)

lemma index_of_key_less: "index_of_key k n = Some i \<Longrightarrow> i < n"
  by (auto simp: index_of_key_def find_Some_iff)

lemma update_first_same:
  "update_first kvs k (case map_of kvs k of Some v \<Rightarrow> v | None \<Rightarrow> d) = kvs"
  by (induction kvs) auto

lemma inplace_getProp: "inplace obj k (getProp obj k) = obj"
  by (cases obj) (auto simp: update_first_same index_of_key_less split: option.splits)

lemma isArray_same:
  assumes "\<And>v i v'. next v i = Inr v' \<Longrightarrow> v' = v" and "isArray obj k next = Inr r"
  shows "r = obj"
proof (cases obj)
  case (VArray xs)
  with assms(2) obtain ys where "forLoop next xs 0 = Inr ys" and "r = VArray ys"
    by (auto simp: isArray_def split: sum.splits)
  with forLoop_same [of "next" xs 0 ys] assms(1) VArray show ?thesis by blast
qed (use assms(2) in \<open>simp_all add: isArray_def\<close>)

lemma step_same:
  assumes "\<And>b. fc = Inr b \<Longrightarrow> b = getProp obj k"
    and "\<And>b. fc = Inr b \<Longrightarrow>
           \<forall>r. fieldsLoop rest (inplace obj k b) strict rk = Inr r \<longrightarrow> r = inplace obj k b"
  shows "\<forall>r. (case fc of Inl e \<Rightarrow> Inl e
              | Inr v' \<Rightarrow> fieldsLoop rest (inplace obj k v') strict rk) = Inr r \<longrightarrow> r = obj"
proof (cases fc)
  case (Inr b)
  with assms(1) have b: "b = getProp obj k" by simp
  from assms(2) [OF Inr] show ?thesis
    by (simp add: Inr b inplace_getProp)
qed simp

text \<open>
  Whatever the checkers return is the value they were given: every slot \<^verbatim>\<open>_isArray\<close>
  writes receives the value it already held.
\<close>

lemma checker_returns_input:
  shows "\<forall>v'. fieldChecker v k ty strict sch = Inr v' \<longrightarrow> v' = v"
    and "\<forall>r. objectFieldChecker s obj strict rk = Inr r \<longrightarrow> r = obj"
    and "\<forall>r. fieldsLoop s obj strict rk = Inr r \<longrightarrow> r = obj"
proof (induction v k ty strict sch and s obj strict rk and s obj strict rk
       rule: fieldChecker_objectFieldChecker_fieldsLoop.induct)
  case (1 v k ty strict sch)
  then show ?case
    by (auto simp: fieldChecker.simps isString_def isNumber_def isBool_def isObject_def
             split: Type.splits option.splits if_splits)
next
  case (2 schema obj strict rootKey)
  then show ?case
    by (auto simp: objectFieldChecker.simps Let_def split: sum.splits if_splits)
next
  case (3 obj strict rootKey)
  then show ?case by simp
next
  case (4 k f rest obj strict rootKey)
  show ?case
  proof (cases "f_optional f \<and> getProp obj k = VUndefined")
    case True
    with 4(1) show ?thesis by (simp add: fieldsLoop.simps(2))
  next
    case False
    note nf = this
    let ?key = "qualifiedKey rootKey k"
    let ?fc = "fieldChecker (getProp obj k) ?key (f_type f) strict (f_schema f)"
    show ?thesis
    proof (cases "f_type f")
      case String
      have "\<And>b. ?fc = Inr b \<Longrightarrow> b = getProp obj k"
        using 4(2) [OF nf refl String] by blast
      from step_same [OF this 4(3) [OF nf refl String]]
      show ?thesis using String by (simp add: fieldsLoop.simps(2) nf)
    next
      case Number
      have "\<And>b. ?fc = Inr b \<Longrightarrow> b = getProp obj k"
        using 4(4) [OF nf refl Number] by blast
      from step_same [OF this 4(5) [OF nf refl Number]]
      show ?thesis using Number by (simp add: fieldsLoop.simps(2) nf)
    next
      case Bool
      have "\<And>b. ?fc = Inr b \<Longrightarrow> b = getProp obj k"
        using 4(6) [OF nf refl Bool] by blast
      from step_same [OF this 4(7) [OF nf refl Bool]]
      show ?thesis using Bool by (simp add: fieldsLoop.simps(2) nf)
    next
      case Object
      have "\<And>b. ?fc = Inr b \<Longrightarrow> b = getProp obj k"
        using 4(8) [OF nf refl Object] by blast
      from step_same [OF this 4(9) [OF nf refl Object]]
      show ?thesis using Object by (simp add: fieldsLoop.simps(2) nf)
    next
      case Array
      let ?next = "\<lambda>el index. case f_field f of
                None \<Rightarrow> Inl (TypeError ''Cannot read properties of undefined (reading 'type')'')
              | Some fld \<Rightarrow>
                  fieldChecker el (indexedKey ?key index) (f_type fld) strict (f_schema fld)"
      have nx: "\<And>v i v'. ?next v i = Inr v' \<Longrightarrow> v' = v"
        using 4(10) [OF nf refl Array] by (auto split: option.splits)
      have "\<And>b. isArray (getProp obj k) ?key ?next = Inr b \<Longrightarrow> b = getProp obj k"
        using isArray_same [of ?next] nx by blast
      from step_same [of "isArray (getProp obj k) ?key ?next",
                      OF this 4(11) [OF nf refl Array]]
      show ?thesis using Array by (simp add: fieldsLoop.simps(2) nf Let_def)
    next
      case Custom
      with 4(12,13) [OF nf refl] show ?thesis
        by (auto simp: fieldsLoop.simps(2) nf split: option.splits outcome.splits if_splits)
    qed
  qed
qed

subsection \<open>The loop, field by field\<close>

lemma fieldsLoop_step:
  "fieldsLoop ((k, f) # rest) obj strict rk =
     (case fieldStep k f obj strict rk of
        Inl e \<Rightarrow> Inl e
      | Inr obj' \<Rightarrow> fieldsLoop rest obj' strict rk)"
proof (cases "f_optional f \<and> getProp obj k = VUndefined")
  case True
  then show ?thesis by (simp add: fieldsLoop.simps(2) fieldStep_def)
next
  case False
  show ?thesis
  proof (cases "f_type f")
    case Custom
    show ?thesis
      by (simp add: fieldsLoop.simps(2) fieldStep_def False Custom Let_def
               split: option.splits outcome.splits)
  qed (simp_all add: fieldsLoop.simps(2) fieldStep_def False Let_def split: sum.splits)
qed

lemma fieldsLoop_append:
  "fieldsLoop (pre @ rest) obj strict rk =
     (case fieldsLoop pre obj strict rk of
        Inl e \<Rightarrow> Inl e
      | Inr obj' \<Rightarrow> fieldsLoop rest obj' strict rk)"
proof (induction pre arbitrary: obj)
  case Nil
  show ?case by simp
next
  case (Cons a pre)
  obtain k f where a: "a = (k, f)" by (cases a)
  show ?case
    by (simp add: a fieldsLoop_step Cons.IH split: sum.splits)
qed

lemma fieldsLoop_same: "fieldsLoop s obj strict rk = Inr r \<Longrightarrow> r = obj"
  using checker_returns_input(3) by blast

lemma objectFieldChecker_pass:
  "strictPasses schema obj strict \<Longrightarrow>
   objectFieldChecker schema obj strict rk = fieldsLoop schema obj strict rk"
  by (auto simp: strictPasses_def objectFieldChecker.simps Let_def split: sum.splits)

lemma fieldsLoop_Cons:
  "fieldsLoop ((k, f) # rest) obj strict rk =
     (case fieldsLoop [(k, f)] obj strict rk of
        Inl e \<Rightarrow> Inl e
      | Inr obj' \<Rightarrow> fieldsLoop rest obj strict rk)"
proof -
  have "fieldsLoop ([(k, f)] @ rest) obj strict rk =
     (case fieldsLoop [(k, f)] obj strict rk of
        Inl e \<Rightarrow> Inl e
      | Inr obj' \<Rightarrow> fieldsLoop rest obj' strict rk)"
    by (rule fieldsLoop_append)
  then show ?thesis
    by (auto split: sum.splits dest: fieldsLoop_same)
qed

lemma first_failure_wins:
  assumes "fieldsLoop before obj strict rk = Inr obj"
    and "fieldsLoop [(name, f)] obj strict rk = Inl e"
  shows "fieldsLoop (before @ (name, f) # after) obj strict rk = Inl e"
  using assms by (simp add: fieldsLoop_append fieldsLoop_Cons [of name f after])

lemma failure_is_first:
  "fieldsLoop s obj strict rk = Inl e \<Longrightarrow>
   \<exists>before name f after. s = before @ (name, f) # after \<and>
      fieldsLoop before obj strict rk = Inr obj \<and>
      fieldsLoop [(name, f)] obj strict rk = Inl e"
proof (induction s)
  case Nil
  then show ?case by simp
next
  case (Cons a s)
  obtain k f where a: "a = (k, f)" by (cases a)
  show ?case
  proof (cases "fieldsLoop [(k, f)] obj strict rk")
    case (Inl e')
    with Cons.prems have "e' = e" by (simp add: a fieldsLoop_Cons [of k f s])
    with Inl have "a # s = [] @ (k, f) # s \<and> fieldsLoop [] obj strict rk = Inr obj \<and>
      fieldsLoop [(k, f)] obj strict rk = Inl e" by (simp add: a)
    then show ?thesis by blast
  next
    case (Inr r)
    then have r: "r = obj" by (rule fieldsLoop_same)
    from Cons.prems Inr have "fieldsLoop s obj strict rk = Inl e"
      by (simp add: a fieldsLoop_Cons [of k f s])
    from Cons.IH [OF this] obtain before name g after where
      s: "s = before @ (name, g) # after" and
      b: "fieldsLoop before obj strict rk = Inr obj" and
      g: "fieldsLoop [(name, g)] obj strict rk = Inl e" by blast
    have "a # s = ((k, f) # before) @ (name, g) # after" by (simp add: a s)
    moreover have "fieldsLoop ((k, f) # before) obj strict rk = Inr obj"
      using Inr b by (simp add: fieldsLoop_Cons [of k f before])
    ultimately show ?thesis using g by blast
  qed
qed

lemma string_of_nat_0: "string_of_nat 0 = ''0''"
  by (simp add: string_of_nat.simps digit_def)

subsection \<open>Nested object fields and array elements\<close>

lemma typeof_nestValue:
  "(ks \<noteq> [] \<or> typeof obj = ''object'') \<Longrightarrow> typeof (nestValue ks obj) = ''object''"
  by (induction ks obj rule: nestValue.induct) simp_all

lemma strictPasses_single: "strictPasses [(k, f)] (VObject [(k, v)]) strict"
  by (simp add: strictPasses_def)

lemma fieldChecker_Object:
  "typeof v = ''object'' \<Longrightarrow>
   fieldChecker v k Object strict (Some s) = objectFieldChecker s v strict (Some k)"
  by (simp add: fieldChecker.simps isObject_def)

text \<open>
  The walk of a schema nested under the levels \<open>ks\<close> is the walk of the innermost
  schema under the composed root key; its exception comes out as it was raised.
\<close>

lemma nested_checker:
  "(ks \<noteq> [] \<longrightarrow> typeof obj = ''object'') \<Longrightarrow>
   objectFieldChecker (nestSchema ks s) (nestValue ks obj) strict rk =
     (case objectFieldChecker s obj strict (nestKey rk ks) of
        Inl e \<Rightarrow> Inl e
      | Inr r \<Rightarrow> Inr (nestValue ks r))"
proof (induction ks arbitrary: rk)
  case Nil
  show ?case by (simp split: sum.splits)
next
  case (Cons l ks)
  let ?S = "nestSchema ks s" and ?V = "nestValue ks obj"
  from Cons.prems have ty: "typeof ?V = ''object''"
    by (intro typeof_nestValue) simp
  from Cons.prems have ih: "objectFieldChecker ?S ?V strict (Some key) =
     (case objectFieldChecker s obj strict (nestKey (Some key) ks) of
        Inl e \<Rightarrow> Inl e
      | Inr r \<Rightarrow> Inr (nestValue ks r))" for key
    by (intro Cons.IH) simp
  show ?case
  proof (cases l)
    case (InField k)
    let ?key = "qualifiedKey rk k"
    have "fieldStep k (objectField ?S required) (VObject [(k, ?V)]) strict rk =
       (case objectFieldChecker ?S ?V strict (Some ?key) of
          Inl e \<Rightarrow> Inl e
        | Inr v' \<Rightarrow> Inr (VObject [(k, v')]))"
      by (simp add: fieldStep_def objectField_def finalOptions_def Let_def
            fieldChecker_Object [OF ty] split: sum.splits)
    then show ?thesis
      by (simp add: InField objectFieldChecker_pass [OF strictPasses_single] fieldsLoop_step
            ih split: sum.splits)
  next
    case (InElement k)
    let ?key = "indexedKey (qualifiedKey rk k) 0"
    have "fieldStep k (arrayField (objectField ?S required) required)
            (VObject [(k, VArray [?V])]) strict rk =
       (case objectFieldChecker ?S ?V strict (Some ?key) of
          Inl e \<Rightarrow> Inl e
        | Inr v' \<Rightarrow> Inr (VObject [(k, VArray [v'])]))"
      by (simp add: fieldStep_def arrayField_def objectField_def finalOptions_def Let_def
            isArray_def fieldChecker_Object [OF ty] split: sum.splits)
    then show ?thesis
      by (simp add: InElement objectFieldChecker_pass [OF strictPasses_single] fieldsLoop_step
            ih split: sum.splits)
  qed
qed

subsection \<open>The strict check and the top-level call\<close>

lemma unexpected_first:
  assumes "object_keys obj = Inr (pre @ k # post)"
    and "set pre \<subseteq> fst ` set schema" and "k \<notin> fst ` set schema"
  shows "objectFieldChecker schema obj True rk = Inl (UnexpectedFieldError k)"
proof -
  have "filter (\<lambda>k. k \<notin> set (map fst schema)) pre = []"
    using assms(2) by (auto simp: filter_empty_conv)
  with assms(1,3) show ?thesis
    by (simp add: objectFieldChecker.simps Let_def)
qed

lemma validate_pass:
  "strictPasses schema obj (finalStrict options) \<Longrightarrow>
   validate schema obj options =
     (case fieldsLoop schema obj (finalStrict options) (o_rootKey options) of
        Inl e \<Rightarrow> if isFieldValidationError e then Inl (ValidationError e) else Inl e
      | Inr r \<Rightarrow> Inr r)"
  by (simp add: validate_def checkObject_def objectFieldChecker_pass)

lemma fieldsLoop_reach:
  assumes "fieldsLoop before obj strict rk = Inr obj"
  shows "fieldsLoop (before @ (name, f) # after) obj strict rk =
     (case fieldStep name f obj strict rk of
        Inl e \<Rightarrow> Inl e
      | Inr obj' \<Rightarrow> fieldsLoop after obj' strict rk)"
  using assms by (simp add: fieldsLoop_append fieldsLoop_step)

lemma validate_error:
  assumes "strictPasses schema obj (finalStrict options)"
    and "schema = before @ (name, f) # after"
    and "fieldsLoop before obj (finalStrict options) (o_rootKey options) = Inr obj"
    and "fieldStep name f obj (finalStrict options) (o_rootKey options) = Inl e"
  shows "validate schema obj options =
         (if isFieldValidationError e then Inl (ValidationError e) else Inl e)"
proof -
  have "fieldsLoop schema obj (finalStrict options) (o_rootKey options) = Inl e"
    unfolding assms(2) fieldsLoop_reach [OF assms(3)] by (simp add: assms(4))
  then show ?thesis
    by (simp add: validate_pass [OF assms(1)])
qed

lemma required_absent_step:
  assumes "\<not> f_optional f" and "getProp obj name = VUndefined" and "f_type f \<noteq> Custom"
    and "f_type f = Object \<longrightarrow> f_schema f \<noteq> None"
  shows "fieldStep name f obj strict rk =
         Inl (FieldTypeMismatchError (qualifiedKey rk name) (f_type f) VUndefined)"
proof -
  from assms(1) have nf: "\<not> (f_optional f \<and> getProp obj name = VUndefined)" by simp
  show ?thesis
    unfolding fieldStep_def if_not_P [OF nf] using assms(2,3,4)
    by (cases "f_type f")
       (auto simp: Let_def fieldChecker.simps isString_def isNumber_def isBool_def
          isObject_def isArray_def)
qed

subsection \<open>Where an exception comes from\<close>

lemma hasResolver_Cons: "hasResolver rest r \<Longrightarrow> hasResolver (x # rest) r"
  by (erule hasResolver.cases) (auto intro: hasResolver.intros)

lemma resolverThrows_Cons: "resolverThrows rest e \<Longrightarrow> resolverThrows (x # rest) e"
  unfolding resolverThrows_def using hasResolver_Cons by blast

lemma resolverThrows_nested:
  "f_schema f = Some s \<Longrightarrow> resolverThrows s e \<Longrightarrow> resolverThrows ((k, f) # rest) e"
  unfolding resolverThrows_def using hasResolver.nested [of k f "(k, f) # rest" s] by auto

lemma resolverThrows_element:
  "f_field f = Some fld \<Longrightarrow> f_schema fld = Some s \<Longrightarrow> resolverThrows s e \<Longrightarrow>
   resolverThrows ((k, f) # rest) e"
  unfolding resolverThrows_def using hasResolver.element [of k f "(k, f) # rest" fld s] by auto

lemma resolverThrows_here:
  "f_resolver f = Some r \<Longrightarrow> r v key = Throws e \<Longrightarrow> resolverThrows ((k, f) # rest) e"
  unfolding resolverThrows_def using hasResolver.here [of k f "(k, f) # rest" r] by auto

lemma forLoop_error: "forLoop next xs i = Inl e \<Longrightarrow> \<exists>v j. next v j = Inl e"
  by (induction xs arbitrary: i) (auto split: sum.splits)

lemma isArray_error:
  "isArray obj k next = Inl e \<Longrightarrow> engineMade e \<or> (\<exists>v j. next v j = Inl e)"
  by (cases obj) (auto simp: isArray_def split: sum.splits dest: forLoop_error)


lemma step_origin:
  assumes "\<And>e. fc = Inl e \<Longrightarrow> engineMade e \<or> resolverThrows ((k, f) # rest) e"
    and "\<And>b e. fc = Inr b \<Longrightarrow> fieldsLoop rest (inplace obj k b) strict rk = Inl e \<Longrightarrow>
           engineMade e \<or> resolverThrows rest e"
  shows "\<forall>e. (case fc of Inl e \<Rightarrow> Inl e
              | Inr v' \<Rightarrow> fieldsLoop rest (inplace obj k v') strict rk) = Inl e \<longrightarrow>
             engineMade e \<or> resolverThrows ((k, f) # rest) e"
  using assms by (cases fc) (auto dest: resolverThrows_Cons)

lemma exception_origin:
  shows "\<forall>e. fieldChecker v k ty strict sch = Inl e \<longrightarrow>
           engineMade e \<or> (\<exists>s. sch = Some s \<and> resolverThrows s e)"
    and "\<forall>e. objectFieldChecker s obj strict rk = Inl e \<longrightarrow> engineMade e \<or> resolverThrows s e"
    and "\<forall>e. fieldsLoop s obj strict rk = Inl e \<longrightarrow> engineMade e \<or> resolverThrows s e"
proof (induction v k ty strict sch and s obj strict rk and s obj strict rk
       rule: fieldChecker_objectFieldChecker_fieldsLoop.induct)
  case (1 v k ty strict sch)
  then show ?case
    by (auto simp: fieldChecker.simps isString_def isNumber_def isBool_def isObject_def
             split: Type.splits option.splits if_splits)
next
  case (2 schema obj strict rootKey)
  then show ?case
    by (cases obj)
       (auto simp: objectFieldChecker.simps Let_def split: sum.splits if_splits)
next
  case (3 obj strict rootKey)
  then show ?case by simp
next
  case (4 k f rest obj strict rootKey)
  show ?case
  proof (cases "f_optional f \<and> getProp obj k = VUndefined")
    case True
    with 4(1) show ?thesis by (auto simp: fieldsLoop.simps(2) dest: resolverThrows_Cons)
  next
    case False
    note nf = this
    let ?key = "qualifiedKey rootKey k"
    let ?fc = "fieldChecker (getProp obj k) ?key (f_type f) strict (f_schema f)"
    have fc: "engineMade e \<or> resolverThrows ((k, f) # rest) e"
      if "?fc = Inl e" and
         "\<forall>e. ?fc = Inl e \<longrightarrow> engineMade e \<or> (\<exists>s. f_schema f = Some s \<and> resolverThrows s e)"
      for e
      using that by (auto dest: resolverThrows_nested)
    show ?thesis
    proof (cases "f_type f")
      case String
      from step_origin [of ?fc k f rest obj strict rootKey] fc 4(2) [OF nf refl String]
        4(3) [OF nf refl String]
      show ?thesis using String by (simp add: fieldsLoop.simps(2) nf)
    next
      case Number
      from step_origin [of ?fc k f rest obj strict rootKey] fc 4(4) [OF nf refl Number]
        4(5) [OF nf refl Number]
      show ?thesis using Number by (simp add: fieldsLoop.simps(2) nf)
    next
      case Bool
      from step_origin [of ?fc k f rest obj strict rootKey] fc 4(6) [OF nf refl Bool]
        4(7) [OF nf refl Bool]
      show ?thesis using Bool by (simp add: fieldsLoop.simps(2) nf)
    next
      case Object
      from step_origin [of ?fc k f rest obj strict rootKey] fc 4(8) [OF nf refl Object]
        4(9) [OF nf refl Object]
      show ?thesis using Object by (simp add: fieldsLoop.simps(2) nf)
    next
      case Array
      let ?next = "\<lambda>el index. case f_field f of
                None \<Rightarrow> Inl (TypeError ''Cannot read properties of undefined (reading 'type')'')
              | Some fld \<Rightarrow>
                  fieldChecker el (indexedKey ?key index) (f_type fld) strict (f_schema fld)"
      have nx: "engineMade e \<or> resolverThrows ((k, f) # rest) e" if "?next v i = Inl e" for v i e
      proof (cases "f_field f")
        case None
        with that show ?thesis by auto
      next
        case (Some fld)
        with that 4(10) [OF nf refl Array Some, of v i] show ?thesis
          by (auto dest: resolverThrows_element [OF Some])
      qed
      have "engineMade e \<or> resolverThrows ((k, f) # rest) e"
        if "isArray (getProp obj k) ?key ?next = Inl e" for e
        using isArray_error [OF that] nx by blast
      from step_origin [of "isArray (getProp obj k) ?key ?next" k f rest obj strict rootKey]
        this 4(11) [OF nf refl Array]
      show ?thesis using Array by (simp add: fieldsLoop.simps(2) nf Let_def)
    next
      case Custom
      show ?thesis
      proof (cases "f_resolver f")
        case None
        then show ?thesis
          using Custom by (auto simp: fieldsLoop.simps(2) nf)
      next
        case (Some r)
        show ?thesis
        proof (cases "r (getProp obj k) ?key")
          case (Throws e')
          then show ?thesis
            using Custom Some resolverThrows_here [OF Some Throws]
            by (simp add: fieldsLoop.simps(2) nf)
        next
          case ReturnsSame
          with 4(12) [OF nf refl Custom Some] show ?thesis
            using Custom Some
            by (auto simp: fieldsLoop.simps(2) nf dest: resolverThrows_Cons)
        next
          case (Returns x)
          with 4(13) [OF nf refl Custom Some] show ?thesis
            using Custom Some
            by (auto simp: fieldsLoop.simps(2) nf dest: resolverThrows_Cons)
        qed
      qed
    qed
  qed
qed

lemma never_non_nullable:
  "objectFieldChecker s obj strict rk = Inl (FieldNonNullableError k') \<Longrightarrow>
   \<exists>r v k. hasResolver s r \<and> r v k = Throws (FieldNonNullableError k')"
  using exception_origin(2) [of s obj strict rk] by (auto simp: resolverThrows_def)

subsection \<open>Absent values\<close>

lemma all_optional_skipped:
  assumes "\<forall>(k, g) \<in> set before. f_optional g" and "\<And>k. getProp obj k = VUndefined"
  shows "fieldsLoop before obj strict rk = Inr obj"
  using assms(1)
  by (induction before) (auto simp: fieldsLoop_step fieldStep_def assms(2))

lemma validate_strict_null:
  assumes "obj = VNull \<or> obj = VUndefined" and "finalStrict options"
  shows "validate schema obj options =
         Inl (TypeError ''Cannot convert undefined or null to object'')"
  using assms by (auto simp: validate_def checkObject_def objectFieldChecker.simps)

subsection \<open>Values that satisfy the schema\<close>

lemma forLoop_all:
  "(\<And>j. j < length xs \<Longrightarrow> next (xs ! j) (i + j) = Inr (xs ! j)) \<Longrightarrow>
   forLoop next xs i = Inr xs"
proof (induction xs arbitrary: i)
  case Nil
  show ?case by simp
next
  case (Cons x xs)
  from Cons.prems [of 0] have x: "next x i = Inr x" by simp
  have "forLoop next xs (Suc i) = Inr xs"
  proof (rule Cons.IH)
    fix j assume "j < length xs"
    with Cons.prems [of "Suc j"] show "next (xs ! j) (Suc i + j) = Inr (xs ! j)" by simp
  qed
  with x show ?case by simp
qed

lemma clean_head: "\<not> customElement ((k, f) # rest) \<Longrightarrow> fieldClean f"
  unfolding fieldClean_def
  using customElement.direct [of k f "(k, f) # rest"] customElement.nested [of k f "(k, f) # rest"]
    customElement.element [of k f "(k, f) # rest"]
  by auto

lemma clean_tail: "\<not> customElement (x # rest) \<Longrightarrow> \<not> customElement rest"
proof
  assume "customElement rest"
  then have "customElement (x # rest)"
    by (cases rule: customElement.cases) (auto intro: customElement.intros)
  moreover assume "\<not> customElement (x # rest)"
  ultimately show False by simp
qed

lemma clean_element:
  "fieldClean f \<Longrightarrow> f_type f = Array \<Longrightarrow> f_field f = Some fld \<Longrightarrow> f_type fld \<noteq> Array \<Longrightarrow>
   fieldClean fld \<and> f_type fld \<noteq> Custom"
  by (auto simp: fieldClean_def)

lemma zip_upt_mem: "j < length xs \<Longrightarrow> (xs ! j, j) \<in> set (zip xs [0..<length xs])"
  by (auto simp: set_zip)

lemma spec_accepted:
  shows "specField f v k \<longrightarrow> fieldClean f \<longrightarrow>
           (f_type f \<noteq> Array \<and> f_type f \<noteq> Custom \<longrightarrow>
              fieldChecker v k (f_type f) False (f_schema f) = Inr v) \<and>
           (f_type f = Array \<longrightarrow>
              isArray v k
                (\<lambda>el index.
                   case f_field f of
                     None \<Rightarrow> Inl (TypeError ''Cannot read properties of undefined (reading 'type')'')
                   | Some fld \<Rightarrow>
                       fieldChecker el (indexedKey k index) (f_type fld) False (f_schema fld))
              = Inr v) \<and>
           (f_type f = Custom \<longrightarrow>
              (\<exists>r. f_resolver f = Some r \<and> (\<forall>e. r v k \<noteq> Throws e) \<and> \<not> differs (r v k) v))"
    and "specFields s obj rk \<longrightarrow> \<not> customElement s \<longrightarrow> fieldsLoop s obj False rk = Inr obj"
proof (induction f v k and s obj rk rule: specField_specFields.induct)
  case (1 f v k)
  show ?case
  proof (intro impI)
    assume sp: "specField f v k" and cl: "fieldClean f"
    show "(f_type f \<noteq> Array \<and> f_type f \<noteq> Custom \<longrightarrow>
              fieldChecker v k (f_type f) False (f_schema f) = Inr v) \<and>
           (f_type f = Array \<longrightarrow>
              isArray v k
                (\<lambda>el index.
                   case f_field f of
                     None \<Rightarrow> Inl (TypeError ''Cannot read properties of undefined (reading 'type')'')
                   | Some fld \<Rightarrow>
                       fieldChecker el (indexedKey k index) (f_type fld) False (f_schema fld))
              = Inr v) \<and>
           (f_type f = Custom \<longrightarrow>
              (\<exists>r. f_resolver f = Some r \<and> (\<forall>e. r v k \<noteq> Throws e) \<and> \<not> differs (r v k) v))"
    proof (cases "f_type f")
      case String
      with sp show ?thesis
        by (auto simp: fieldChecker.simps isString_def split: dyn.splits)
    next
      case Number
      with sp show ?thesis
        by (auto simp: fieldChecker.simps isNumber_def split: dyn.splits)
    next
      case Bool
      with sp show ?thesis
        by (auto simp: fieldChecker.simps isBool_def split: dyn.splits)
    next
      case Object
      with sp obtain s kvs where s: "f_schema f = Some s" and v: "v = VObject kvs"
        and ss: "specFields s v (Some k)"
        by (auto split: option.splits dyn.splits)
      from cl Object s have "\<not> customElement s" by (simp add: fieldClean_def)
      with "1.IH"(1) [OF Object s v] ss have "fieldsLoop s v False (Some k) = Inr v" by simp
      then have "fieldChecker v k Object False (Some s) = Inr v"
        by (simp add: fieldChecker_Object v objectFieldChecker_pass strictPasses_def)
      with Object s show ?thesis by simp
    next
      case Array
      with sp obtain fld xs where fld: "f_field f = Some fld" and na: "f_type fld \<noteq> Array"
        and v: "v = VArray xs"
        and all: "list_all (\<lambda>(el, index). specField fld el (indexedKey k index))
                    (zip xs [0..<length xs])"
        by (auto split: option.splits dyn.splits)
      from clean_element [OF cl Array fld na]
      have cf: "fieldClean fld" and nc: "f_type fld \<noteq> Custom" by simp_all
      let ?next = "\<lambda>el index.
                   case f_field f of
                     None \<Rightarrow> Inl (TypeError ''Cannot read properties of undefined (reading 'type')'')
                   | Some fld \<Rightarrow>
                       fieldChecker el (indexedKey k index) (f_type fld) False (f_schema fld)"
      have "forLoop ?next xs 0 = Inr xs"
      proof (rule forLoop_all)
        fix j assume j: "j < length xs"
        note mem = zip_upt_mem [OF j]
        from all mem have "specField fld (xs ! j) (indexedKey k j)"
          by (auto simp: list_all_iff)
        with "1.IH"(2) [OF Array fld v mem refl] cf na nc
        show "?next (xs ! j) (0 + j) = Inr (xs ! j)" by (simp add: fld)
      qed
      then have "isArray v k ?next = Inr v" by (simp add: isArray_def v)
      with Array show ?thesis by simp
    next
      case Custom
      with sp show ?thesis
        by (auto split: option.splits outcome.splits)
    qed
  qed
next
  case (2 obj rootKey)
  show ?case by simp
next
  case (3 k f rest obj rootKey)
  show ?case
  proof (intro impI)
    assume sp: "specFields ((k, f) # rest) obj rootKey" and cl: "\<not> customElement ((k, f) # rest)"
    from cl have cf: "fieldClean f" by (rule clean_head)
    from cl have cr: "\<not> customElement rest" by (rule clean_tail)
    from sp cr "3.IH"(2) have rest: "fieldsLoop rest obj False rootKey = Inr obj" by simp
    have "fieldStep k f obj False rootKey = Inr obj"
    proof (cases "f_optional f \<and> getProp obj k = VUndefined")
      case True
      then show ?thesis by (simp add: fieldStep_def)
    next
      case False
      with sp have "specField f (getProp obj k) (qualifiedKey rootKey k)" by auto
      with "3.IH"(1) cf have acc:
        "(f_type f \<noteq> Array \<and> f_type f \<noteq> Custom \<longrightarrow>
            fieldChecker (getProp obj k) (qualifiedKey rootKey k) (f_type f) False (f_schema f) =
            Inr (getProp obj k))"
        "(f_type f = Array \<longrightarrow>
            isArray (getProp obj k) (qualifiedKey rootKey k)
              (\<lambda>el index.
                 case f_field f of
                   None \<Rightarrow> Inl (TypeError ''Cannot read properties of undefined (reading 'type')'')
                 | Some fld \<Rightarrow>
                     fieldChecker el (indexedKey (qualifiedKey rootKey k) index) (f_type fld)
                       False (f_schema fld))
            = Inr (getProp obj k))"
        "(f_type f = Custom \<longrightarrow>
            (\<exists>r. f_resolver f = Some r \<and>
               (\<forall>e. r (getProp obj k) (qualifiedKey rootKey k) \<noteq> Throws e) \<and>
               \<not> differs (r (getProp obj k) (qualifiedKey rootKey k)) (getProp obj k)))"
        by blast+
      show ?thesis
        unfolding fieldStep_def if_not_P [OF False] using acc
        by (cases "f_type f")
           (auto simp: Let_def inplace_getProp split: outcome.splits)
    qed
    with rest show "fieldsLoop ((k, f) # rest) obj False rootKey = Inr obj"
      by (simp add: fieldsLoop_step)
  qed
qed

lemma satisfying_value_returned:
  assumes "satisfies schema v" and "\<not> customElement schema"
    and "\<not> finalStrict options" and "o_rootKey options = None"
  shows "validate schema v options = Inr v"
proof -
  from assms(1) have "specFields schema v None"
    by (auto simp: satisfies_def split: dyn.splits)
  with spec_accepted(2) [of schema v None] assms(2)
  have "fieldsLoop schema v False None = Inr v" by simp
  with assms(3,4) show ?thesis
    by (simp add: validate_def checkObject_def objectFieldChecker_pass strictPasses_def)
qed

subsection \<open>The key path of a type mismatch\<close>

lemma atPath_Cons: "atPath rest obj rk p ty v \<Longrightarrow> atPath (x # rest) obj rk p ty v"
  by (cases rule: atPath.cases, assumption) (auto intro: atPath.intros)

lemma forLoop_error_index:
  "forLoop next xs i = Inl e \<Longrightarrow> \<exists>j<length xs. next (xs ! j) (i + j) = Inl e"
proof (induction xs arbitrary: i)
  case Nil
  then show ?case by simp
next
  case (Cons x xs)
  show ?case
  proof (cases "next x i")
    case (Inl e')
    with Cons.prems have "next ((x # xs) ! 0) (i + 0) = Inl e" by simp
    then show ?thesis by blast
  next
    case (Inr v')
    with Cons.prems have "forLoop next xs (Suc i) = Inl e" by (simp split: sum.splits)
    from Cons.IH [OF this] obtain j where "j < length xs" "next (xs ! j) (Suc i + j) = Inl e"
      by blast
    then have "Suc j < length (x # xs) \<and> next ((x # xs) ! Suc j) (i + Suc j) = Inl e" by simp
    then show ?thesis by blast
  qed
qed


lemma forLoop_error_index0:
  "forLoop next xs 0 = Inl e \<Longrightarrow> \<exists>j<length xs. next (xs ! j) j = Inl e"
  using forLoop_error_index [of "next" xs 0 e] by simp

lemma step_path:
  assumes "fc = Inl e \<Longrightarrow> atPath ((k, f) # rest) obj rk p ty v \<or> resolverThrows ((k, f) # rest) e"
    and "\<And>b. fc = Inr b \<Longrightarrow> b = getProp obj k"
    and "\<And>b. fc = Inr b \<Longrightarrow>
           fieldsLoop rest (inplace obj k b) strict rk = Inl e \<longrightarrow>
           atPath rest (inplace obj k b) rk p ty v \<or> resolverThrows rest e"
  shows "(case fc of Inl e \<Rightarrow> Inl e
          | Inr v' \<Rightarrow> fieldsLoop rest (inplace obj k v') strict rk) = Inl e \<longrightarrow>
         atPath ((k, f) # rest) obj rk p ty v \<or> resolverThrows ((k, f) # rest) e"
proof (cases fc)
  case (Inl e')
  with assms(1) show ?thesis by auto
next
  case (Inr b)
  with assms(2) have b: "inplace obj k b = obj" by (simp add: inplace_getProp)
  from assms(3) [OF Inr] show ?thesis
    by (auto simp: Inr b dest: atPath_Cons resolverThrows_Cons)
qed

lemma mismatch_path:
  fixes p :: string and ty :: Type and v :: dyn
  defines "e \<equiv> FieldTypeMismatchError p ty v"
  shows "fieldChecker v0 k ty0 strict sch = Inl e \<longrightarrow>
           (p = k \<and> ty = ty0 \<and> v = v0) \<or>
           (ty0 = Object \<and>
            (\<exists>s. sch = Some s \<and> (atPath s v0 (Some k) p ty v \<or> resolverThrows s e)))"
    and "objectFieldChecker s obj strict rk = Inl e \<longrightarrow>
           atPath s obj rk p ty v \<or> resolverThrows s e"
    and "fieldsLoop s obj strict rk = Inl e \<longrightarrow> atPath s obj rk p ty v \<or> resolverThrows s e"
proof (induction v0 k ty0 strict sch and s obj strict rk and s obj strict rk
       rule: fieldChecker_objectFieldChecker_fieldsLoop.induct)
  case (1 v0 k ty0 strict sch)
  then show ?case
    by (auto simp: fieldChecker.simps isString_def isNumber_def isBool_def isObject_def e_def
             split: Type.splits option.splits if_splits)
next
  case (2 schema obj strict rootKey)
  then show ?case
    by (cases obj)
       (auto simp: objectFieldChecker.simps Let_def e_def split: sum.splits if_splits)
next
  case (3 obj strict rootKey)
  then show ?case by simp
next
  case (4 k f rest obj strict rootKey)
  let ?S = "(k, f) # rest"
  show ?case
  proof (cases "f_optional f \<and> getProp obj k = VUndefined")
    case True
    with 4(1) show ?thesis
      by (auto simp: fieldsLoop.simps(2) dest: atPath_Cons resolverThrows_Cons)
  next
    case False
    note nf = this
    let ?key = "qualifiedKey rootKey k"
    let ?fc = "fieldChecker (getProp obj k) ?key (f_type f) strict (f_schema f)"
    have same: "b = getProp obj k" if "?fc = Inr b" for b
      using that checker_returns_input(1) by blast
    have fc: "atPath ?S obj rootKey p ty v \<or> resolverThrows ?S e"
      if "?fc = Inl e" and
         "?fc = Inl e \<longrightarrow>
            (p = ?key \<and> ty = f_type f \<and> v = getProp obj k) \<or>
            (f_type f = Object \<and>
             (\<exists>s. f_schema f = Some s \<and>
                  (atPath s (getProp obj k) (Some ?key) p ty v \<or> resolverThrows s e)))"
    proof -
      from that consider
          (a) "p = ?key" "ty = f_type f" "v = getProp obj k"
        | (b) s where "f_type f = Object" "f_schema f = Some s"
                "atPath s (getProp obj k) (Some ?key) p ty v"
        | (c) s where "f_schema f = Some s" "resolverThrows s e"
        by blast
      then show ?thesis
      proof cases
        case a
        then show ?thesis using atPath.field [of k f ?S obj rootKey] by simp
      next
        case b
        then show ?thesis using atPath.nested [of k f ?S s obj rootKey p ty v] by simp
      next
        case c
        then show ?thesis using resolverThrows_nested by blast
      qed
    qed
    show ?thesis
    proof (cases "f_type f")
      case String
      from step_path [of ?fc e k f rest obj rootKey p ty v strict, OF _ same]
        fc 4(2) [OF nf refl String] 4(3) [OF nf refl String]
      show ?thesis using String by (simp add: fieldsLoop.simps(2) nf)
    next
      case Number
      from step_path [of ?fc e k f rest obj rootKey p ty v strict, OF _ same]
        fc 4(4) [OF nf refl Number] 4(5) [OF nf refl Number]
      show ?thesis using Number by (simp add: fieldsLoop.simps(2) nf)
    next
      case Bool
      from step_path [of ?fc e k f rest obj rootKey p ty v strict, OF _ same]
        fc 4(6) [OF nf refl Bool] 4(7) [OF nf refl Bool]
      show ?thesis using Bool by (simp add: fieldsLoop.simps(2) nf)
    next
      case Object
      from step_path [of ?fc e k f rest obj rootKey p ty v strict, OF _ same]
        fc 4(8) [OF nf refl Object] 4(9) [OF nf refl Object]
      show ?thesis using Object by (simp add: fieldsLoop.simps(2) nf)
    next
      case Array
      let ?next = "\<lambda>el index. case f_field f of
                None \<Rightarrow> Inl (TypeError ''Cannot read properties of undefined (reading 'type')'')
              | Some fld \<Rightarrow>
                  fieldChecker el (indexedKey ?key index) (f_type fld) strict (f_schema fld)"
      let ?ia = "isArray (getProp obj k) ?key ?next"
      have sameA: "b = getProp obj k" if "?ia = Inr b" for b
      proof (rule isArray_same [OF _ that])
        fix el i v'
        assume "?next el i = Inr v'"
        then show "v' = el"
          using checker_returns_input(1) by (auto split: option.splits)
      qed
      have ia: "atPath ?S obj rootKey p ty v \<or> resolverThrows ?S e" if err: "?ia = Inl e"
      proof (cases "getProp obj k")
        case (VArray xs)
        with err have "forLoop ?next xs 0 = Inl e"
          by (simp add: isArray_def split: sum.splits)
        from forLoop_error_index0 [OF this] obtain j where j: "j < length xs"
          and nj: "?next (xs ! j) j = Inl e" by blast
        from nj obtain fld where fld: "f_field f = Some fld"
          by (cases "f_field f") (auto simp: e_def)
        with nj have "fieldChecker (xs ! j) (indexedKey ?key j) (f_type fld) strict (f_schema fld)
                      = Inl e" by simp
        with 4(10) [OF nf refl Array fld, of "xs ! j" j] consider
            (a) "p = indexedKey ?key j" "ty = f_type fld" "v = xs ! j"
          | (b) s where "f_type fld = Object" "f_schema fld = Some s"
                  "atPath s (xs ! j) (Some (indexedKey ?key j)) p ty v"
          | (c) s where "f_schema fld = Some s" "resolverThrows s e"
          by blast
        then show ?thesis
        proof cases
          case a
          then show ?thesis
            using atPath.element [of k f ?S fld obj xs j rootKey] Array fld VArray j by simp
        next
          case b
          then show ?thesis
            using atPath.element_nested [of k f ?S fld obj xs j s rootKey p ty v]
              Array fld VArray j by simp
        next
          case c
          then show ?thesis using resolverThrows_element [OF fld] by blast
        qed
      qed (use err Array atPath.field [of k f ?S obj rootKey] in
            \<open>auto simp: isArray_def e_def\<close>)
      from step_path [of ?ia e k f rest obj rootKey p ty v strict, OF ia sameA
                        4(11) [OF nf refl Array]]
      show ?thesis using Array by (simp add: fieldsLoop.simps(2) nf Let_def)
    next
      case Custom
      show ?thesis
      proof (cases "f_resolver f")
        case None
        then show ?thesis
          using Custom by (auto simp: fieldsLoop.simps(2) nf e_def)
      next
        case (Some r)
        show ?thesis
        proof (cases "r (getProp obj k) ?key")
          case (Throws e')
          then show ?thesis
            using Custom Some resolverThrows_here [OF Some Throws]
            by (auto simp: fieldsLoop.simps(2) nf)
        next
          case ReturnsSame
          with 4(12) [OF nf refl Custom Some] show ?thesis
            using Custom Some
            by (auto simp: fieldsLoop.simps(2) nf e_def dest: atPath_Cons resolverThrows_Cons)
        next
          case (Returns x)
          with 4(13) [OF nf refl Custom Some] show ?thesis
            using Custom Some
            by (auto simp: fieldsLoop.simps(2) nf e_def dest: atPath_Cons resolverThrows_Cons)
        qed
      qed
    qed
  qed
qed

text \<open>
  Every type mismatch that reaches the caller names the place of the offending value:
  its key is the composed path, its kind the declared one, its value the one found
  there; unless a resolver threw that very error.
\<close>

lemma type_mismatch_key_is_path:
  assumes "validate schema obj options =
           Inl (ValidationError (FieldTypeMismatchError p ty v))"
  shows "atPath schema obj (o_rootKey options) p ty v \<or>
         resolverThrows schema (FieldTypeMismatchError p ty v) \<or>
         resolverThrows schema (ValidationError (FieldTypeMismatchError p ty v))"
proof (cases "objectFieldChecker schema obj (finalStrict options) (o_rootKey options)")
  case (Inl e)
  show ?thesis
  proof (cases "isFieldValidationError e")
    case True
    with assms Inl have "e = FieldTypeMismatchError p ty v"
      by (simp add: validate_def checkObject_def)
    with Inl mismatch_path(2) [of schema obj "finalStrict options" "o_rootKey options" p ty v]
    show ?thesis by blast
  next
    case False
    with assms Inl have "e = ValidationError (FieldTypeMismatchError p ty v)"
      by (simp add: validate_def checkObject_def)
    with Inl exception_origin(2) [of schema obj "finalStrict options" "o_rootKey options"]
    show ?thesis by auto
  qed
next
  case (Inr r)
  with assms show ?thesis by (simp add: validate_def checkObject_def)
qed

subsection \<open>Levels the walk reaches\<close>

lemma forLoop_append:
  "forLoop next (ys @ zs) i =
     (case forLoop next ys i of
        Inl e \<Rightarrow> Inl e
      | Inr ys' \<Rightarrow>
          (case forLoop next zs (i + length ys) of
             Inl e \<Rightarrow> Inl e
           | Inr zs' \<Rightarrow> Inr (ys' @ zs')))"
  by (induction ys arbitrary: i) (auto split: sum.splits)

lemma forLoop_fails_at:
  assumes "i < length xs" and "forLoop next (take i xs) 0 = Inr (take i xs)"
    and "next (xs ! i) i = Inl e"
  shows "forLoop next xs 0 = Inl e"
proof -
  from assms(1) have xs: "xs = take i xs @ (xs ! i) # drop (Suc i) xs"
    by (simp add: id_take_nth_drop)
  have "forLoop next (take i xs @ (xs ! i) # drop (Suc i) xs) 0 = Inl e"
    unfolding forLoop_append using assms(1) by (simp add: assms(2,3) min_def)
  with xs show ?thesis by simp
qed

lemma level_error:
  assumes "strictPasses s obj strict" and "s = before @ (name, f) # after"
    and "fieldsLoop before obj strict rk = Inr obj"
    and "fieldStep name f obj strict rk = Inl e"
  shows "objectFieldChecker s obj strict rk = Inl e"
proof -
  have "fieldsLoop s obj strict rk = Inl e"
    unfolding assms(2) fieldsLoop_reach [OF assms(3)] by (simp add: assms(4))
  then show ?thesis by (simp add: objectFieldChecker_pass [OF assms(1)])
qed

text \<open>
  An error raised at a level the walk reaches ends every enclosing level with the same
  error: no level between the top and the one that fails catches anything.
\<close>

lemma reaches_error:
  assumes "reaches strict S O' RK s obj rk"
  shows "objectFieldChecker s obj strict rk = Inl e \<Longrightarrow>
         objectFieldChecker S O' strict RK = Inl e"
  using assms
proof (induction arbitrary: e)
  case top
  then show ?case .
next
  case (into_field s obj rk before name f after s')
  let ?key = "qualifiedKey rk name"
  from into_field.prems into_field.hyps(8)
  have "fieldChecker (getProp obj name) ?key Object strict (Some s') = Inl e"
    by (simp add: fieldChecker_Object)
  then have "fieldStep name f obj strict rk = Inl e"
    unfolding fieldStep_def if_not_P [OF into_field.hyps(5)]
    using into_field.hyps(6,7) by (simp add: Let_def)
  from level_error [OF into_field.hyps(2,3,4) this] show ?case
    by (rule into_field.IH)
next
  case (into_element s obj rk before name f after fld xs i s')
  let ?key = "qualifiedKey rk name"
  let ?next = "\<lambda>el index.
                fieldChecker el (indexedKey ?key index) (f_type fld) strict (f_schema fld)"
  from into_element.prems into_element.hyps(11,12,13)
  have "?next (xs ! i) i = Inl e"
    by (simp add: fieldChecker_Object)
  from forLoop_fails_at [of i xs ?next, OF into_element.hyps(9,10) this]
  have "isArray (getProp obj name) ?key ?next = Inl e"
    by (simp add: isArray_def into_element.hyps(8))
  then have "fieldStep name f obj strict rk = Inl e"
    unfolding fieldStep_def if_not_P [OF into_element.hyps(5)]
    using into_element.hyps(6,7) by (simp add: Let_def)
  from level_error [OF into_element.hyps(2,3,4) this] show ?case
    by (rule into_element.IH)
qed

lemma validate_reached_error:
  assumes "reaches (finalStrict options) schema obj (o_rootKey options) s ob rk"
    and "strictPasses s ob (finalStrict options)"
    and "s = before @ (name, f) # after"
    and "fieldsLoop before ob (finalStrict options) rk = Inr ob"
    and "fieldStep name f ob (finalStrict options) rk = Inl e"
  shows "validate schema obj options =
         (if isFieldValidationError e then Inl (ValidationError e) else Inl e)"
proof -
  from reaches_error [OF assms(1) level_error [OF assms(2,3,4,5)]]
  show ?thesis by (simp add: validate_def checkObject_def)
qed

subsection \<open>Enumeration order and inherited properties\<close>

lemma literal_no_index:
  assumes "\<forall>(k, x) \<in> set props. arrayIndex k = None"
  shows "literal props = props"
proof -
  from assms have "filter (\<lambda>(k, x). arrayIndex k \<noteq> None) props = []"
    by (auto simp: filter_empty_conv)
  moreover from assms have "filter (\<lambda>(k, x). arrayIndex k = None) props = props"
    by (auto simp: filter_id_conv)
  ultimately show ?thesis by (simp add: literal_def)
qed

text \<open>
  A field named like a member of \<^verbatim>\<open>Object.prototype\<close> is never absent from an object:
  \<^verbatim>\<open>obj?.[key]\<close> finds the inherited function, which is checked like an own value.
\<close>

lemma inherited_property_is_read:
  "validate [(''toString'', field String required)] (VObject []) defaults =
     Inl (ValidationError
            (FieldTypeMismatchError ''toString'' String
               (VFunction ''Object.prototype.toString''))) \<and>
   validate [(''constructor'', field String opt)] (VObject []) defaults =
     Inl (ValidationError (FieldTypeMismatchError ''constructor'' String (VFunction ''Object'')))"
  by code_simp

section \<open>The claims\<close>

text \<open>
  Claim C3. A classified error (type mismatch, non-nullable, unexpected field) raised at
  any depth of the walk reaches the caller inside exactly one \<open>ValidationError\<close>, as its
  inner cause; any other exception reaches the caller as it was raised. Here the error
  \<open>e\<close> is raised by the walk of the schema \<open>s\<close> that lies \<open>length ks\<close> levels deep, each
  level an object field or an element of an array of objects, for any \<open>ks\<close>.
\<close>

theorem classified_errors_wrapped_once:
  assumes "ks \<noteq> [] \<longrightarrow> typeof obj = ''object''"
    and "objectFieldChecker s obj (finalStrict options) (nestKey (o_rootKey options) ks) = Inl e"
  shows "validate (nestSchema ks s) (nestValue ks obj) options =
         (if isFieldValidationError e then Inl (ValidationError e) else Inl e)"
  using assms
  by (simp add: validate_def checkObject_def nested_checker)

text \<open>
  Witness for C3: a type mismatch inside an element of an array inside an object field,
  under the root key \<open>request.body\<close>; and a plain \<^verbatim>\<open>Error\<close> thrown by a resolver at the
  same place.
\<close>

theorem classified_errors_wrapped_once_witness:
  "objectFieldChecker [(''age'', field Number required)] (VObject [(''age'', VString ''bad'')])
     True (nestKey (Some ''request.body'') [InField ''u'', InElement ''xs'']) =
   Inl (FieldTypeMismatchError ''request.body.u.xs[0].age'' Number (VString ''bad'')) \<and>
   validate
     [(''u'', objectField
        [(''xs'', arrayField (objectField [(''age'', field Number required)] required)
                    required)] required)]
     (VObject [(''u'', VObject [(''xs'', VArray [VObject [(''age'', VString ''bad'')]])])])
     \<lparr>o_strict = Some True, o_rootKey = Some ''request.body''\<rparr> =
   Inl (ValidationError
          (FieldTypeMismatchError ''request.body.u.xs[0].age'' Number (VString ''bad''))) \<and>
   validate
     [(''u'', objectField
        [(''xs'', arrayField (objectField [(''age'', customField rejectPlain required)] required)
                    required)] required)]
     (VObject [(''u'', VObject [(''xs'', VArray [VObject [(''age'', VString ''bad'')]])])])
     \<lparr>o_strict = Some True, o_rootKey = Some ''request.body''\<rparr> =
   Inl (Error ''rejected under key: request.body.u.xs[0].age'')"
proof -
  let ?options = "\<lparr>o_strict = Some True, o_rootKey = Some ''request.body''\<rparr>"
  let ?ks = "[InField ''u'', InElement ''xs'']"
  let ?obj = "VObject [(''age'', VString ''bad'')]"
  have h1: "?ks \<noteq> [] \<longrightarrow> typeof ?obj = ''object''"
    by simp
  have h2: "objectFieldChecker [(''age'', field Number required)] ?obj
     (finalStrict ?options) (nestKey (o_rootKey ?options) ?ks) =
     Inl (FieldTypeMismatchError ''request.body.u.xs[0].age'' Number (VString ''bad''))"
    by code_simp
  have h3: "objectFieldChecker [(''age'', customField rejectPlain required)] ?obj
     (finalStrict ?options) (nestKey (o_rootKey ?options) ?ks) =
     Inl (Error ''rejected under key: request.body.u.xs[0].age'')"
    by code_simp
  from classified_errors_wrapped_once [OF h1 h2] classified_errors_wrapped_once [OF h1 h3] h2
  show ?thesis by (simp add: finalStrict_def)
qed

text \<open>
  Claim C7. Each element of an array is validated against the element specification
  under the key \<open>name[index]\<close> and its result written back, also when the element is a
  custom field. The code differs for custom elements: \<^verbatim>\<open>_fieldChecker\<close> has no case
  for \<^verbatim>\<open>Type.Custom\<close>, so the first element of any non-empty array ends the validation
  with the plain \<^verbatim>\<open>Error\<close> "Unknown type for key name[0]", whatever the resolver is; the
  resolver is never called.
\<close>

theorem custom_array_elements_rejected:
  "validate [(name, arrayField (customField resolver fo) fo')]
     (VObject [(name, VArray (x # xs))]) options =
   Inl (Error (''Unknown type for key '' @ qualifiedKey (o_rootKey options) name @ ''[0]''))"
  by (simp add: validate_def checkObject_def objectFieldChecker.simps fieldsLoop_step
        fieldStep_def arrayField_def customField_def isArray_def fieldChecker.simps
        indexedKey_def string_of_nat_0 Let_def)

text \<open>
  Claim C5, as amended. At every object level the strict check comes before any field is
  checked and reports the first key, in the enumeration order of the input, that the
  schema lacks; a field-level error is that of the first failing field in the order in
  which \<^verbatim>\<open>Object.keys\<close> enumerates the schema, and nothing after it is looked at. That
  order is the declaration order when no field name is an array index; otherwise the
  fields named by array indices come first, in ascending numeric order (\<open>literal\<close>).
  \<open>objectFieldChecker\<close> is the function that runs at each object level and \<open>schema\<close>
  lists the fields in enumeration order. First part: with strict mode on, the first key
  outside the schema is reported whatever the fields are. Second part: once the strict
  check lets the walk start, if the fields \<open>before\<close> pass and the field \<open>name\<close> fails with
  \<open>e\<close>, the result is \<open>e\<close> whatever the fields \<open>after\<close> are. Third part: every error of
  the walk is the error of a field whose predecessors all pass. Fourth part: for a schema
  written as a literal that declares the fields \<open>declared\<close>, none of them named by an
  array index, the second part holds with the fields taken in declaration order.
\<close>

theorem strict_check_then_first_failing_field:
  "(strict \<and> object_keys obj = Inr (pre @ k # post) \<and> set pre \<subseteq> fst ` set schema \<and>
      k \<notin> fst ` set schema \<longrightarrow>
      objectFieldChecker schema obj strict rk = Inl (UnexpectedFieldError k)) \<and>
   (strictPasses schema obj strict \<and> schema = before @ (name, f) # after \<and>
      fieldsLoop before obj strict rk = Inr obj \<and>
      fieldsLoop [(name, f)] obj strict rk = Inl e \<longrightarrow>
      objectFieldChecker schema obj strict rk = Inl e) \<and>
   (strictPasses schema obj strict \<and> objectFieldChecker schema obj strict rk = Inl e' \<longrightarrow>
      (\<exists>before name f after. schema = before @ (name, f) # after \<and>
         fieldsLoop before obj strict rk = Inr obj \<and>
         fieldsLoop [(name, f)] obj strict rk = Inl e')) \<and>
   ((\<forall>(k, g) \<in> set declared. arrayIndex k = None) \<and>
      strictPasses declared obj strict \<and> declared = before @ (name, f) # after \<and>
      fieldsLoop before obj strict rk = Inr obj \<and>
      fieldsLoop [(name, f)] obj strict rk = Inl e \<longrightarrow>
      objectFieldChecker (literal declared) obj strict rk = Inl e)"
  using unexpected_first [of obj pre k post schema rk]
    first_failure_wins [of before obj strict rk name f e after]
    failure_is_first [of schema obj strict rk e']
    literal_no_index [of declared]
  by (auto simp: objectFieldChecker_pass)

text \<open>
  Counterexample to C5 as stated ("field-level errors always report the first failing
  field in schema declaration order"): the schema \<^verbatim>\<open>{ z: field(Type.String), 0:
  field(Type.Number) }\<close> on the input \<^verbatim>\<open>{ z: 1, 0: "x" }\<close>. Both fields fail; \<open>z\<close> is
  declared first and fails with a mismatch of its own, yet \<^verbatim>\<open>Object.keys(schema)\<close> is
  \<^verbatim>\<open>["0", "z"]\<close> and the error reported is that of the field \<open>0\<close>.
\<close>

theorem first_failure_not_in_declaration_order:
  "map fst (literal [(''z'', field String required), (''0'', field Number required)]) =
     [''0'', ''z''] \<and>
   fieldsLoop [(''z'', field String required)]
     (VObject (literal [(''z'', VNumber (Num 1)), (''0'', VString ''x'')])) False None =
     Inl (FieldTypeMismatchError ''z'' String (VNumber (Num 1))) \<and>
   validate (literal [(''z'', field String required), (''0'', field Number required)])
     (VObject (literal [(''z'', VNumber (Num 1)), (''0'', VString ''x'')])) defaults =
     Inl (ValidationError (FieldTypeMismatchError ''0'' Number (VString ''x'')))"
  by code_simp

text \<open>
  Witness for C5: two invalid fields and two unexpected keys under strict mode; then a
  valid field followed by two invalid ones, the schema being given in enumeration order
  and as the literal that declares it.
\<close>

theorem strict_check_then_first_failing_field_witness:
  "objectFieldChecker [(''a'', field String required), (''b'', field Number required)]
     (VObject [(''a'', VNumber (Num 1)), (''b'', VString ''x''), (''z'', VBool True), (''y'', VNull)])
     True None = Inl (UnexpectedFieldError ''z'') \<and>
   objectFieldChecker
     [(''a'', field String required), (''b'', field Number required), (''c'', field Bool required)]
     (VObject [(''a'', VString ''foo''), (''b'', VString ''x''), (''c'', VNumber (Num 1))])
     False None = Inl (FieldTypeMismatchError ''b'' Number (VString ''x'')) \<and>
   (\<exists>before name f after.
      [(''a'', field String required), (''b'', field Number required), (''c'', field Bool required)]
        = before @ (name, f) # after \<and>
      fieldsLoop before
        (VObject [(''a'', VString ''foo''), (''b'', VString ''x''), (''c'', VNumber (Num 1))])
        False None =
        Inr (VObject [(''a'', VString ''foo''), (''b'', VString ''x''), (''c'', VNumber (Num 1))]) \<and>
      fieldsLoop [(name, f)]
        (VObject [(''a'', VString ''foo''), (''b'', VString ''x''), (''c'', VNumber (Num 1))])
        False None = Inl (FieldTypeMismatchError ''b'' Number (VString ''x''))) \<and>
   objectFieldChecker
     (literal [(''a'', field String required), (''b'', field Number required),
               (''c'', field Bool required)])
     (VObject [(''a'', VString ''foo''), (''b'', VString ''x''), (''c'', VNumber (Num 1))])
     False None = Inl (FieldTypeMismatchError ''b'' Number (VString ''x''))"
proof -
  let ?S1 = "[(''a'', field String required), (''b'', field Number required)]"
  let ?O1 = "VObject [(''a'', VNumber (Num 1)), (''b'', VString ''x''), (''z'', VBool True),
                (''y'', VNull)]"
  let ?S2 = "[(''a'', field String required), (''b'', field Number required),
              (''c'', field Bool required)]"
  let ?O2 = "VObject [(''a'', VString ''foo''), (''b'', VString ''x''), (''c'', VNumber (Num 1))]"
  let ?e = "FieldTypeMismatchError ''b'' Number (VString ''x'')"
  have a: "objectFieldChecker ?S1 ?O1 True None = Inl (UnexpectedFieldError ''z'')"
    using strict_check_then_first_failing_field
      [where strict = True and obj = ?O1 and pre = "[''a'', ''b'']" and k = "''z''"
         and post = "[''y'']" and schema = ?S1 and rk = None, THEN conjunct1]
    by simp
  have sp: "strictPasses ?S2 ?O2 False" by (simp add: strictPasses_def)
  have h1: "fieldsLoop [(''a'', field String required)] ?O2 False None = Inr ?O2" by code_simp
  have h2: "fieldsLoop [(''b'', field Number required)] ?O2 False None = Inl ?e" by code_simp
  have b: "objectFieldChecker ?S2 ?O2 False None = Inl ?e"
    using strict_check_then_first_failing_field
      [where strict = False and obj = ?O2 and schema = ?S2 and rk = None
         and before = "[(''a'', field String required)]" and name = "''b''"
         and f = "field Number required" and after = "[(''c'', field Bool required)]"
         and e = ?e, THEN conjunct2, THEN conjunct1]
      sp h1 h2
    by simp
  have c: "\<exists>before name f after. ?S2 = before @ (name, f) # after \<and>
      fieldsLoop before ?O2 False None = Inr ?O2 \<and>
      fieldsLoop [(name, f)] ?O2 False None = Inl ?e"
    using strict_check_then_first_failing_field
      [where strict = False and obj = ?O2 and schema = ?S2 and rk = None and e' = ?e,
         THEN conjunct2, THEN conjunct2, THEN conjunct1]
      sp b
    by blast
  have n1: "arrayIndex ''a'' = None" and n2: "arrayIndex ''b'' = None"
    and n3: "arrayIndex ''c'' = None"
    by code_simp+
  have d: "objectFieldChecker (literal ?S2) ?O2 False None = Inl ?e"
    using strict_check_then_first_failing_field
      [where strict = False and obj = ?O2 and declared = ?S2 and rk = None
         and before = "[(''a'', field String required)]" and name = "''b''"
         and f = "field Number required" and after = "[(''c'', field Bool required)]"
         and e = ?e, THEN conjunct2, THEN conjunct2, THEN conjunct2]
      sp h1 h2 n1 n2 n3
    by simp
  from a b c d show ?thesis by blast
qed

text \<open>
  Claim C8, as amended. Let the walk reach a custom field of an object schema, at the
  top level or at any depth below object fields and elements of arrays of objects: the
  walk reaches the object level (\<open>s\<close>, \<open>ob\<close>, \<open>rk\<close>) that holds the field, the strict
  check of that level lets the walk start, the fields before it pass, and the field is
  not skipped as optional and absent. If its resolver returns a value that is not
  identical (\<^verbatim>\<open>!==\<close>) to the value it received, the call fails with the plain \<^verbatim>\<open>Error\<close>
  "Custom resolver for key ... did not return the origin value, which is not allowed"
  (with the bare name of the field), not wrapped. If the resolver throws \<open>e\<close>, the caller
  receives \<open>e\<close> itself unless \<open>e\<close> is an instance of one of the three classified error
  classes, in which case the top-level call wraps it in a \<open>ValidationError\<close> like an
  error of the engine. The resolver receives the value read from the object and the
  qualified key of the field.
\<close>

theorem custom_resolver_outcomes:
  assumes "reaches (finalStrict options) schema obj (o_rootKey options) s ob rk"
    and "strictPasses s ob (finalStrict options)"
    and "s = before @ (name, f) # after"
    and "fieldsLoop before ob (finalStrict options) rk = Inr ob"
    and "f_type f = Custom" and "f_resolver f = Some resolver"
    and "\<not> (f_optional f \<and> getProp ob name = VUndefined)"
  shows "(differs (resolver (getProp ob name) (qualifiedKey rk name)) (getProp ob name) \<longrightarrow>
          validate schema obj options =
            Inl (Error (''Custom resolver for key '' @ name @
                   '' did not return the origin value, which is not allowed''))) \<and>
         (\<forall>e. resolver (getProp ob name) (qualifiedKey rk name) = Throws e \<longrightarrow>
            validate schema obj options =
            (if isFieldValidationError e then Inl (ValidationError e) else Inl e))"
proof -
  let ?strict = "finalStrict options"
  let ?res = "resolver (getProp ob name) (qualifiedKey rk name)"
  let ?msg = "''Custom resolver for key '' @ name @
                 '' did not return the origin value, which is not allowed''"
  have step: "fieldStep name f ob ?strict rk =
     (case ?res of
        Throws e \<Rightarrow> Inl e
      | result \<Rightarrow> if differs result (getProp ob name) then Inl (Error ?msg) else Inr ob)"
    unfolding fieldStep_def if_not_P [OF assms(7)] using assms(5,6) by (simp add: Let_def)
  have a: "validate schema obj options = Inl (Error ?msg)"
    if "differs ?res (getProp ob name)"
  proof -
    from that have "fieldStep name f ob ?strict rk = Inl (Error ?msg)"
      unfolding step by (cases ?res) simp_all
    from validate_reached_error [OF assms(1,2,3,4) this] show ?thesis by simp
  qed
  have b: "validate schema obj options =
            (if isFieldValidationError e then Inl (ValidationError e) else Inl e)"
    if "?res = Throws e" for e
  proof -
    from that have "fieldStep name f ob ?strict rk = Inl e"
      unfolding step by simp
    from validate_reached_error [OF assms(1,2,3,4) this] show ?thesis .
  qed
  from a b show ?thesis by blast
qed

text \<open>
  Counterexample to C8 as stated ("any error the resolver throws propagates
  unclassified"): a resolver that throws the exported \<open>FieldTypeMismatchError\<close>; the
  caller receives it wrapped in a \<open>ValidationError\<close>.
\<close>

theorem resolver_classified_error_is_wrapped:
  "rejectClassified (VNumber (Num 3)) ''c'' =
     Throws (FieldTypeMismatchError ''c'' String (VNumber (Num 3))) \<and>
   validate [(''c'', customField rejectClassified required)]
     (VObject [(''c'', VNumber (Num 3))]) defaults =
     Inl (ValidationError (FieldTypeMismatchError ''c'' String (VNumber (Num 3))))"
  by code_simp

text \<open>
  Witness for C8. At the top level, after a valid field: a resolver that returns another
  value, one that throws a plain \<^verbatim>\<open>Error\<close>, and one that throws a classified error.
  Inside an object field, under strict mode and a root key: a resolver that returns
  another value. Inside the second element of an array of objects: a resolver that
  throws the reserved non-nullable error, which reaches the caller wrapped.
\<close>

theorem custom_resolver_outcomes_witness:
  "validate [(''id'', field Number required), (''c'', customField replaceByNull required)]
     (VObject [(''id'', VNumber (Num 1)), (''c'', VString ''x'')]) defaults =
     Inl (Error ''Custom resolver for key c did not return the origin value, which is not allowed'') \<and>
   validate [(''id'', field Number required), (''c'', customField rejectPlain required)]
     (VObject [(''id'', VNumber (Num 1)), (''c'', VString ''x'')]) defaults =
     Inl (Error ''rejected under key: c'') \<and>
   validate [(''id'', field Number required), (''c'', customField rejectClassified required)]
     (VObject [(''id'', VNumber (Num 1)), (''c'', VString ''x'')]) defaults =
     Inl (ValidationError (FieldTypeMismatchError ''c'' String (VString ''x''))) \<and>
   validate
     [(''u'', objectField
        [(''id'', field Number required), (''c'', customField replaceByNull required)]
        required)]
     (VObject [(''u'', VObject [(''id'', VNumber (Num 1)), (''c'', VString ''x'')])])
     \<lparr>o_strict = Some True, o_rootKey = Some ''request.body''\<rparr> =
     Inl (Error ''Custom resolver for key c did not return the origin value, which is not allowed'') \<and>
   validate
     [(''xs'', arrayField (objectField [(''c'', customField rejectAbsent required)] required)
                 required)]
     (VObject [(''xs'', VArray [VObject [(''c'', VString ''a'')], VObject []])]) defaults =
     Inl (ValidationError (FieldNonNullableError ''xs[1].c''))"
proof -
  let ?O = "VObject [(''id'', VNumber (Num 1)), (''c'', VString ''x'')]"
  let ?B = "[(''id'', field Number required)]"
  have sp: "strictPasses (?B @ (''c'', customField r required) # []) ?O (finalStrict defaults)" for r
    by (simp add: strictPasses_def finalStrict_def)
  have pre: "fieldsLoop ?B ?O (finalStrict defaults) (o_rootKey defaults) = Inr ?O"
    by code_simp
  have ty: "f_type (customField r required) = Custom"
    and rs: "f_resolver (customField r required) = Some r" for r
    by (simp_all add: customField_def)
  have no: "\<not> (f_optional (customField r required) \<and> v = VUndefined)" for r v
    by (simp add: customField_def finalOptions_def)
  note t = custom_resolver_outcomes [OF reaches.top sp refl pre ty rs no]
  have "differs (replaceByNull (getProp ?O ''c'') (qualifiedKey (o_rootKey defaults) ''c''))
          (getProp ?O ''c'')"
    by (simp add: replaceByNull_def)
  with t [of replaceByNull] have a:
    "validate (?B @ (''c'', customField replaceByNull required) # []) ?O defaults =
     Inl (Error ''Custom resolver for key c did not return the origin value, which is not allowed'')"
    by simp
  have "rejectPlain (getProp ?O ''c'') (qualifiedKey (o_rootKey defaults) ''c'') =
          Throws (Error ''rejected under key: c'')"
    by (simp add: rejectPlain_def qualifiedKey_def)
  with t [of rejectPlain] have b:
    "validate (?B @ (''c'', customField rejectPlain required) # []) ?O defaults =
     Inl (Error ''rejected under key: c'')"
    by simp
  have "rejectClassified (getProp ?O ''c'') (qualifiedKey (o_rootKey defaults) ''c'') =
          Throws (FieldTypeMismatchError ''c'' String (VString ''x''))"
    by (simp add: rejectClassified_def qualifiedKey_def)
  with t [of rejectClassified] have c:
    "validate (?B @ (''c'', customField rejectClassified required) # []) ?O defaults =
     Inl (ValidationError (FieldTypeMismatchError ''c'' String (VString ''x'')))"
    by simp
  let ?opts = "\<lparr>o_strict = Some True, o_rootKey = Some ''request.body''\<rparr>"
  let ?s1 = "?B @ (''c'', customField replaceByNull required) # []"
  let ?S1 = "[] @ (''u'', objectField ?s1 required) # []"
  let ?O1 = "VObject [(''u'', ?O)]"
  let ?rk1 = "Some (qualifiedKey (o_rootKey ?opts) ''u'')"
  have r1: "reaches (finalStrict ?opts) ?S1 ?O1 (o_rootKey ?opts) ?s1 (getProp ?O1 ''u'') ?rk1"
    by (rule reaches.into_field [OF reaches.top _ refl])
       (simp_all add: strictPasses_def finalStrict_def objectField_def finalOptions_def)
  have sp1: "strictPasses ?s1 (getProp ?O1 ''u'') (finalStrict ?opts)"
    by (simp add: strictPasses_def finalStrict_def)
  have pre1: "fieldsLoop ?B (getProp ?O1 ''u'') (finalStrict ?opts) ?rk1 = Inr (getProp ?O1 ''u'')"
    by code_simp
  have "differs (replaceByNull (getProp (getProp ?O1 ''u'') ''c'') (qualifiedKey ?rk1 ''c''))
          (getProp (getProp ?O1 ''u'') ''c'')"
    by (simp add: replaceByNull_def)
  with custom_resolver_outcomes [OF r1 sp1 refl pre1 ty rs no] have d:
    "validate ?S1 ?O1 ?opts =
     Inl (Error ''Custom resolver for key c did not return the origin value, which is not allowed'')"
    by simp
  let ?s2 = "[] @ (''c'', customField rejectAbsent required) # []"
  let ?fld = "objectField ?s2 required"
  let ?S2 = "[] @ (''xs'', arrayField ?fld required) # []"
  let ?xs = "[VObject [(''c'', VString ''a'')], VObject []]"
  let ?O2 = "VObject [(''xs'', VArray ?xs)]"
  let ?rk2 = "Some (indexedKey (qualifiedKey (o_rootKey defaults) ''xs'') (Suc 0))"
  have el: "forLoop (\<lambda>el index.
                fieldChecker el (indexedKey (qualifiedKey (o_rootKey defaults) ''xs'') index)
                  (f_type ?fld) (finalStrict defaults) (f_schema ?fld))
       (take (Suc 0) ?xs) 0 = Inr (take (Suc 0) ?xs)"
    by code_simp
  have r2: "reaches (finalStrict defaults) ?S2 ?O2 (o_rootKey defaults) ?s2 (?xs ! Suc 0) ?rk2"
    by (rule reaches.into_element [OF reaches.top _ refl _ _ _ _ _ _ el, where after = "[]"])
       (simp_all add: strictPasses_def finalStrict_def objectField_def arrayField_def
          finalOptions_def)
  have sp2: "strictPasses ?s2 (?xs ! Suc 0) (finalStrict defaults)"
    by (simp add: strictPasses_def finalStrict_def)
  have pre2: "fieldsLoop [] (?xs ! Suc 0) (finalStrict defaults) ?rk2 = Inr (?xs ! Suc 0)"
    by simp
  have "rejectAbsent (getProp (?xs ! Suc 0) ''c'') (qualifiedKey ?rk2 ''c'') =
          Throws (FieldNonNullableError ''xs[1].c'')"
    by code_simp
  with custom_resolver_outcomes [OF r2 sp2 refl pre2 ty rs no] have e:
    "validate ?S2 ?O2 defaults = Inl (ValidationError (FieldNonNullableError ''xs[1].c''))"
    by simp
  from a b c d e show ?thesis by simp
qed

text \<open>
  Claim C9, as amended. Let the walk reach a required field of kind String, Number,
  Bool, Object (with its nested schema) or Array, at the top level or at any depth below
  object fields and elements of arrays of objects: the walk reaches the object level
  (\<open>s\<close>, \<open>ob\<close>, \<open>rk\<close>) that holds the field, the strict check of that level lets the walk
  start, and the fields before it pass. If the field is absent, that is if reading it
  from the object yields \<^verbatim>\<open>undefined\<close> (the object has no value of its own under that
  name and inherits none), it fails through the kind check used for present values:
  the caller receives a type mismatch, wrapped in a \<open>ValidationError\<close>, that carries the
  qualified key, the declared kind and no value. (A required custom field that is absent
  is handed to its resolver, which decides.) The engine never raises the reserved
  non-nullable error: whenever a walk ends with one, a resolver of the schema threw it.
\<close>

theorem absent_required_field_type_mismatch:
  assumes "reaches (finalStrict options) schema obj (o_rootKey options) s ob rk"
    and "strictPasses s ob (finalStrict options)"
    and "s = before @ (name, f) # after"
    and "fieldsLoop before ob (finalStrict options) rk = Inr ob"
    and "\<not> f_optional f" and "getProp ob name = VUndefined"
    and "f_type f \<noteq> Custom" and "f_type f = Object \<longrightarrow> f_schema f \<noteq> None"
  shows "validate schema obj options =
           Inl (ValidationError
                  (FieldTypeMismatchError (qualifiedKey rk name) (f_type f) VUndefined)) \<and>
         (\<forall>s' obj' strict' rk' k'.
            objectFieldChecker s' obj' strict' rk' = Inl (FieldNonNullableError k') \<longrightarrow>
            (\<exists>r v k. hasResolver s' r \<and> r v k = Throws (FieldNonNullableError k')))"
proof -
  from validate_reached_error [OF assms(1,2,3,4) required_absent_step [OF assms(5,6,7,8)]]
  show ?thesis using never_non_nullable by auto
qed

text \<open>
  Counterexample to C9 as stated ("for every required field absent from the input,
  validation fails"): a required custom field whose resolver accepts \<^verbatim>\<open>undefined\<close>.
\<close>

theorem required_custom_field_may_be_absent:
  "validate [(''c'', customField acceptAll required)] (VObject []) defaults = Inr (VObject [])"
  by code_simp

text \<open>
  Witness for C9: the missing required field and the missing nested required field of
  the test suite (key \<open>b.c\<close>), and a resolver that throws the reserved error.
\<close>

theorem absent_required_field_type_mismatch_witness:
  "validate [(''a'', field String required), (''b'', field Number opt), (''c'', field Bool required)]
     (VObject [(''a'', VString ''foo'')]) defaults =
     Inl (ValidationError (FieldTypeMismatchError ''c'' Bool VUndefined)) \<and>
   validate
     [(''a'', field String required),
      (''b'', objectField [(''c'', field Number required), (''d'', field Bool opt)] required)]
     (VObject [(''a'', VString ''bar''), (''b'', VObject [])]) defaults =
     Inl (ValidationError (FieldTypeMismatchError ''b.c'' Number VUndefined)) \<and>
   objectFieldChecker [(''c'', customField rejectAbsent required)] (VObject []) False None =
     Inl (FieldNonNullableError ''c'') \<and>
   (\<exists>r v k. hasResolver [(''c'', customField rejectAbsent required)] r \<and>
      r v k = Throws (FieldNonNullableError ''c''))"
proof -
  let ?B = "[(''a'', field String required), (''b'', field Number opt)]"
  let ?O = "VObject [(''a'', VString ''foo'')]"
  let ?f = "field Bool required"
  have sp: "strictPasses (?B @ (''c'', ?f) # []) ?O (finalStrict defaults)"
    by (simp add: strictPasses_def finalStrict_def)
  have pre: "fieldsLoop ?B ?O (finalStrict defaults) (o_rootKey defaults) = Inr ?O"
    by code_simp
  have g: "getProp ?O ''c'' = VUndefined" by code_simp
  have f1: "\<not> f_optional (field ty required)" for ty
    by (simp add: field_def finalOptions_def)
  have f3: "f_type (field Bool required) \<noteq> Custom"
    and f4: "f_type (field Bool required) = Object \<longrightarrow> f_schema (field Bool required) \<noteq> None"
    and f3': "f_type (field Number required) \<noteq> Custom"
    and f4': "f_type (field Number required) = Object \<longrightarrow>
              f_schema (field Number required) \<noteq> None"
    by (simp_all add: field_def)
  note t = absent_required_field_type_mismatch [OF reaches.top sp refl pre f1 g f3 f4]
  from t have a: "validate (?B @ (''c'', ?f) # []) ?O defaults =
     Inl (ValidationError (FieldTypeMismatchError ''c'' Bool VUndefined))"
    by (simp add: field_def qualifiedKey_def)
  let ?B1 = "[(''a'', field String required)]"
  let ?s1 = "[] @ (''c'', field Number required) # [(''d'', field Bool opt)]"
  let ?S1 = "?B1 @ (''b'', objectField ?s1 required) # []"
  let ?O1 = "VObject [(''a'', VString ''bar''), (''b'', VObject [])]"
  let ?rk1 = "Some (qualifiedKey (o_rootKey defaults) ''b'')"
  have pre0: "fieldsLoop ?B1 ?O1 (finalStrict defaults) (o_rootKey defaults) = Inr ?O1"
    by code_simp
  have r1: "reaches (finalStrict defaults) ?S1 ?O1 (o_rootKey defaults) ?s1 (getProp ?O1 ''b'') ?rk1"
    by (rule reaches.into_field [OF reaches.top _ refl pre0])
       (simp_all add: strictPasses_def finalStrict_def objectField_def finalOptions_def)
  have sp1: "strictPasses ?s1 (getProp ?O1 ''b'') (finalStrict defaults)"
    by (simp add: strictPasses_def finalStrict_def)
  have pre1: "fieldsLoop [] (getProp ?O1 ''b'') (finalStrict defaults) ?rk1 = Inr (getProp ?O1 ''b'')"
    by simp
  have g1: "getProp (getProp ?O1 ''b'') ''c'' = VUndefined" by code_simp
  from absent_required_field_type_mismatch [OF r1 sp1 refl pre1 f1 g1 f3' f4']
  have b: "validate ?S1 ?O1 defaults =
     Inl (ValidationError (FieldTypeMismatchError ''b.c'' Number VUndefined))"
    by (simp add: field_def qualifiedKey_def)
  have h: "objectFieldChecker [(''c'', customField rejectAbsent required)] (VObject []) False None =
     Inl (FieldNonNullableError ''c'')"
    by code_simp
  with t have "\<exists>r v k. hasResolver [(''c'', customField rejectAbsent required)] r \<and>
      r v k = Throws (FieldNonNullableError ''c'')"
    by blast
  with a b h show ?thesis by simp
qed

text \<open>
  Claim C10, as amended. For every schema, a \<^verbatim>\<open>null\<close> or \<^verbatim>\<open>undefined\<close> input under strict
  mode ends with the \<^verbatim>\<open>TypeError\<close> of \<^verbatim>\<open>Object.keys\<close>, not wrapped. With strict mode off,
  if the schema has a required field, and the first one is not a custom field, the same
  input ends with a wrapped type mismatch for that field, carrying no value.
\<close>

theorem null_input:
  assumes "obj = VNull \<or> obj = VUndefined"
  shows "(finalStrict options \<longrightarrow>
            validate schema obj options =
            Inl (TypeError ''Cannot convert undefined or null to object'')) \<and>
         (\<not> finalStrict options \<and> schema = before @ (name, f) # after \<and>
            (\<forall>(k, g) \<in> set before. f_optional g) \<and> \<not> f_optional f \<and>
            f_type f \<noteq> Custom \<and> (f_type f = Object \<longrightarrow> f_schema f \<noteq> None) \<longrightarrow>
            validate schema obj options =
            Inl (ValidationError
                   (FieldTypeMismatchError (qualifiedKey (o_rootKey options) name) (f_type f)
                      VUndefined)))"
proof -
  from assms have g: "getProp obj k = VUndefined" for k by auto
  have "validate schema obj options =
            Inl (ValidationError
                   (FieldTypeMismatchError (qualifiedKey (o_rootKey options) name) (f_type f)
                      VUndefined))"
    if ns: "\<not> finalStrict options" and s: "schema = before @ (name, f) # after"
      and o: "\<forall>(k, g) \<in> set before. f_optional g" and r: "\<not> f_optional f"
      and c: "f_type f \<noteq> Custom" and w: "f_type f = Object \<longrightarrow> f_schema f \<noteq> None"
  proof -
    from ns have sp: "strictPasses schema obj (finalStrict options)"
      by (simp add: strictPasses_def)
    from validate_error [OF sp s all_optional_skipped [OF o g] required_absent_step [OF r g c w]]
    show ?thesis by simp
  qed
  with validate_strict_null [OF assms] show ?thesis by blast
qed

text \<open>
  Counterexample to C10 as stated ("for every schema ... with strict mode off the same
  null input yields a classified type-mismatch"): a schema without required field
  returns \<^verbatim>\<open>null\<close> as valid.
\<close>

theorem null_input_without_required_field:
  "validate [(''a'', field String opt)] VNull defaults = Inr VNull"
  by code_simp

text \<open>Witness for C10: an optional field before the first required one.\<close>

theorem null_input_witness:
  "validate [(''a'', field String opt), (''b'', field Number required)] VNull
     \<lparr>o_strict = Some True, o_rootKey = None\<rparr> =
     Inl (TypeError ''Cannot convert undefined or null to object'') \<and>
   validate [(''a'', field String opt), (''b'', field Number required)] VNull defaults =
     Inl (ValidationError (FieldTypeMismatchError ''b'' Number VUndefined))"
proof -
  let ?S = "[(''a'', field String opt), (''b'', field Number required)]"
  have n: "VNull = VNull \<or> VNull = VUndefined" by simp
  have a: "validate ?S VNull \<lparr>o_strict = Some True, o_rootKey = None\<rparr> =
     Inl (TypeError ''Cannot convert undefined or null to object'')"
    using null_input [OF n, where options = "\<lparr>o_strict = Some True, o_rootKey = None\<rparr>"
        and schema = ?S, THEN conjunct1]
    by (simp add: finalStrict_def)
  have b: "validate ?S VNull defaults =
     Inl (ValidationError (FieldTypeMismatchError ''b'' Number VUndefined))"
    using null_input [OF n, where options = defaults and schema = ?S
        and before = "[(''a'', field String opt)]" and name = "''b''"
        and f = "field Number required" and after = "[]", THEN conjunct2]
    by (simp add: finalStrict_def field_def finalOptions_def qualifiedKey_def)
  from a b show ?thesis by simp
qed

text \<open>
  Claim C1. Under strict mode an input key that the schema lacks is reported with the
  current path prefix. The code reports the bare key: \<^verbatim>\<open>new
  UnexpectedFieldError(unexpectedKeys[0])\<close> ignores \<^verbatim>\<open>rootKey\<close>. The example is the one
  of the repository's README, which announces the key \<open>request.body.extra\<close>.
\<close>

theorem unexpected_key_reported_bare:
  "validate [(''a'', field String required)]
     (VObject [(''a'', VString ''x''), (''extra'', VString ''not allowed'')])
     \<lparr>o_strict = Some True, o_rootKey = Some ''request.body''\<rparr> =
   Inl (ValidationError (UnexpectedFieldError ''extra''))"
  by code_simp

text \<open>
  Claim C2. An object field whose value is not an Object, in particular an Array, fails
  with a type mismatch at the field's key. The code tests \<^verbatim>\<open>typeof obj !== "object"\<close>,
  which lets arrays and \<^verbatim>\<open>null\<close> through: both are accepted when the nested schema has
  no required field, and otherwise the mismatch is reported for a nested key.
\<close>

theorem object_field_accepts_array_and_null:
  "validate [(''b'', objectField [(''c'', field Number opt)] required)]
     (VObject [(''b'', VArray [VNumber (Num 1), VNumber (Num 2)])]) defaults =
     Inr (VObject [(''b'', VArray [VNumber (Num 1), VNumber (Num 2)])]) \<and>
   validate [(''b'', objectField [(''c'', field Number opt)] required)]
     (VObject [(''b'', VNull)]) defaults = Inr (VObject [(''b'', VNull)]) \<and>
   validate [(''b'', objectField [(''c'', field Number required)] required)]
     (VObject [(''b'', VArray [VNumber (Num 1)])]) defaults =
     Inl (ValidationError (FieldTypeMismatchError ''b.c'' Number VUndefined))"
  by code_simp

text \<open>
  Claim C4. Every reported key path starts with the root key and follows the object
  fields down to the failing one. The unexpected key of a nested object under strict
  mode is reported bare, without the root key and without the enclosing field
  (\<open>z\<close> instead of \<open>request.body.u.z\<close>): the defect of C1.
\<close>

theorem nested_unexpected_key_reported_bare:
  "validate [(''u'', objectField [(''age'', field Number required)] required)]
     (VObject [(''u'', VObject [(''age'', VNumber (Num 30)), (''z'', VNumber (Num 1))])])
     \<lparr>o_strict = Some True, o_rootKey = Some ''request.body''\<rparr> =
   Inl (ValidationError (UnexpectedFieldError ''z''))"
  by code_simp

text \<open>
  Claim C6. A value that satisfies the schema is returned unchanged. An array of
  custom elements that the resolver accepts satisfies the schema in the specification's
  sense (\<open>satisfies\<close>), and the code rejects it: the defect of C7.
\<close>

theorem satisfying_custom_array_rejected:
  "satisfies [(''xs'', arrayField (customField acceptAll required) required)]
      (VObject [(''xs'', VArray [VString ''ok''])]) \<and>
   validate [(''xs'', arrayField (customField acceptAll required) required)]
      (VObject [(''xs'', VArray [VString ''ok''])]) defaults =
   Inl (Error ''Unknown type for key xs[0]'')"
  by code_simp

end
